theory Spec2Isabelle
  imports Main "HOL-Library.FSet" "HOL-Library.AList" "HOL-Library.Multiset"
    "HOL-Library.Char_ord" "HOL-Library.List_Lexorder"
begin

section \<open>Strings\<close>

text \<open>
  The module is Python 2 code (\<^verbatim>\<open>from sets import Set\<close>, \<^verbatim>\<open>popen2\<close>): a \<^verbatim>\<open>str\<close> is a
  byte string, modelled as \<^typ>\<open>string\<close>. Without the LOCALE or UNICODE flag the regular
  expression class \<^verbatim>\<open>\w\<close> is \<^verbatim>\<open>[a-zA-Z0-9_]\<close> and \<^verbatim>\<open>\s\<close> is blank, tab, newline, vertical
  tab, form feed and carriage return.
\<close>

definition ascii_lowercase :: string where
  "ascii_lowercase = ''abcdefghijklmnopqrstuvwxyz''"

definition ascii_uppercase :: string where
  "ascii_uppercase = ''ABCDEFGHIJKLMNOPQRSTUVWXYZ''"

definition digits :: string where
  "digits = ''0123456789''"

definition is_word :: "char \<Rightarrow> bool" where
  "is_word c \<longleftrightarrow> c \<in> set (ascii_lowercase @ ascii_uppercase @ digits @ ''_'')"

definition lower_char :: "char \<Rightarrow> char" where
  "lower_char c = (case map_of (zip ascii_uppercase ascii_lowercase) c of Some l \<Rightarrow> l | None \<Rightarrow> c)"

definition lower :: "string \<Rightarrow> string" where
  "lower s = map lower_char s"

definition sub_nonword :: "string \<Rightarrow> string" where
  "sub_nonword s = map (\<lambda>c. if is_word c then c else CHR ''_'') s"

text \<open>\<^verbatim>\<open>re.sub(r'\W', '_', title)\<close> and \<^verbatim>\<open>.lower()\<close> (dotgraph.py line 95), and the decimal
  form of a non-negative integer as \<^verbatim>\<open>%s\<close> and \<^verbatim>\<open>%d\<close> print it.\<close>

fun str_nat :: "nat \<Rightarrow> string" where
  "str_nat n = (if n < 10 then [digits ! n] else str_nat (n div 10) @ [digits ! (n mod 10)])"

declare str_nat.simps [simp del]

text \<open>\<^verbatim>\<open>'%s_%s' % (self.uid, n)\<close> (lines 103 and 104).\<close>

definition uid_n :: "string \<Rightarrow> nat \<Rightarrow> string" where
  "uid_n uid n = uid @ ''_'' @ str_nat n"

lemma digits_inj: "a < 10 \<Longrightarrow> b < 10 \<Longrightarrow> digits ! a = digits ! b \<Longrightarrow> a = b"
proof -
  assume "a < 10" "b < 10" "digits ! a = digits ! b"
  moreover have "distinct digits" by (simp add: digits_def)
  moreover have "length digits = 10" by (simp add: digits_def)
  ultimately show ?thesis by (simp add: nth_eq_iff_index_eq)
qed

lemma str_nat_nonempty: "str_nat n \<noteq> []"
  by (subst str_nat.simps) simp

lemma str_nat_inj: "str_nat n = str_nat m \<Longrightarrow> n = m"
proof (induction n arbitrary: m rule: str_nat.induct)
  case (1 n)
  show ?case
  proof (cases "n < 10")
    case True
    note n = this
    show ?thesis
    proof (cases "m < 10")
      case True
      with n "1.prems" show ?thesis
        by (simp add: str_nat.simps[of n] str_nat.simps[of m] digits_inj)
    next
      case False
      with n "1.prems" str_nat_nonempty[of "m div 10"] show ?thesis
        by (simp add: str_nat.simps[of n] str_nat.simps[of m])
    qed
  next
    case False
    note n = this
    show ?thesis
    proof (cases "m < 10")
      case True
      with n "1.prems" str_nat_nonempty[of "n div 10"] show ?thesis
        by (simp add: str_nat.simps[of n] str_nat.simps[of m])
    next
      case False
      with n "1.prems" have e: "str_nat (n div 10) = str_nat (m div 10)"
        and d: "digits ! (n mod 10) = digits ! (m mod 10)"
        by (simp_all add: str_nat.simps[of n] str_nat.simps[of m])
      from "1.IH"[OF n e] have "n div 10 = m div 10" .
      moreover from d have "n mod 10 = m mod 10" by (simp add: digits_inj)
      ultimately show ?thesis by (metis div_mult_mod_eq)
    qed
  qed
qed

lemma uid_n_inj: "inj (uid_n uid)"
  by (rule injI) (simp add: uid_n_def str_nat_inj)

text \<open>
  The loop of line 103, \<^verbatim>\<open>while ('%s_%s' % (self.uid, n)) in self._uids: n += 1\<close>, returning
  the final \<^verbatim>\<open>n\<close>. The registry is a finite set and the suffixed names are pairwise different,
  so the loop ends.
\<close>

function unused_suffix :: "string \<Rightarrow> nat \<Rightarrow> string fset \<Rightarrow> nat" where
  "unused_suffix uid n S = (if uid_n uid n |\<in>| S then unused_suffix uid (n + 1) S else n)"
  by pat_completeness auto
termination
proof (relation "measure (\<lambda>(uid, n, S). card {k. n \<le> k \<and> uid_n uid k |\<in>| S})")
  show "wf (measure (\<lambda>(uid, n, S). card {k. n \<le> k \<and> uid_n uid k |\<in>| S}))" by simp
next
  fix uid :: string and n :: nat and S :: "string fset"
  assume a: "uid_n uid n |\<in>| S"
  have fin: "finite {k. n \<le> k \<and> uid_n uid k |\<in>| S}"
  proof (rule finite_subset)
    show "{k. n \<le> k \<and> uid_n uid k |\<in>| S} \<subseteq> uid_n uid -` fset S" by auto
    show "finite (uid_n uid -` fset S)"
      by (rule finite_vimageI) (simp_all add: uid_n_inj)
  qed
  have "n \<in> {k. n \<le> k \<and> uid_n uid k |\<in>| S}" "n \<notin> {k. n + 1 \<le> k \<and> uid_n uid k |\<in>| S}"
    using a by simp_all
  moreover have "{k. n + 1 \<le> k \<and> uid_n uid k |\<in>| S} \<subseteq> {k. n \<le> k \<and> uid_n uid k |\<in>| S}"
    by auto
  ultimately have "{k. n + 1 \<le> k \<and> uid_n uid k |\<in>| S} \<subset> {k. n \<le> k \<and> uid_n uid k |\<in>| S}"
    by blast
  then have "card {k. n + 1 \<le> k \<and> uid_n uid k |\<in>| S} < card {k. n \<le> k \<and> uid_n uid k |\<in>| S}"
    using fin by (rule psubset_card_mono[rotated])
  then show "((uid, n + 1, S), (uid, n, S)) \<in> measure (\<lambda>(uid, n, S). card {k. n \<le> k \<and> uid_n uid k |\<in>| S})"
    by simp
qed

declare unused_suffix.simps [simp del]

lemma unused_suffix_unused: "uid_n uid (unused_suffix uid n S) |\<notin>| S"
  by (induction uid n S rule: unused_suffix.induct) (subst unused_suffix.simps, simp)

lemma unused_suffix_ge: "n \<le> unused_suffix uid n S"
  by (induction uid n S rule: unused_suffix.induct) (subst unused_suffix.simps, auto)

lemma unused_suffix_least: "n \<le> k \<Longrightarrow> k < unused_suffix uid n S \<Longrightarrow> uid_n uid k |\<in>| S"
proof (induction uid n S rule: unused_suffix.induct)
  case (1 uid n S)
  show ?case
  proof (cases "uid_n uid n |\<in>| S")
    case True
    show ?thesis
    proof (cases "k = n")
      case True
      with \<open>uid_n uid n |\<in>| S\<close> show ?thesis by simp
    next
      case False
      with "1.prems" True "1.IH"[OF True] show ?thesis
        by (simp add: unused_suffix.simps[of uid n S])
    qed
  next
    case False
    with "1.prems" show ?thesis by (simp add: unused_suffix.simps[of uid n S])
  qed
qed


section \<open>The data model\<close>

text \<open>
  An attribute dictionary is an association list: its order stands for the iteration order
  of the Python dictionary, which \<^verbatim>\<open>items()\<close> exposes to the serializer. Attribute values are
  strings. A \<^verbatim>\<open>DotGraphNode\<close> object is referred to by its \<^verbatim>\<open>id\<close>, which is unique in the
  process: an edge stores the ids of its \<^verbatim>\<open>start\<close> and \<^verbatim>\<open>end\<close> nodes. Every attribute dictionary is
  an object of its own, as the constructors of nodes and edges make them (\<^verbatim>\<open>**attribs\<close>), so
  that a change of one is a change of no other.
\<close>

type_synonym attrib_dict = "(string \<times> string) list"

record dot_item =
  attribs :: attrib_dict

record dot_node = dot_item +
  node_id :: nat

record dot_edge = dot_item +
  start :: nat
  end_node :: nat

record dot_graph =
  title :: string
  nodes :: "dot_node list"
  edges :: "dot_edge list"
  body :: string
  node_defaults :: attrib_dict
  edge_defaults :: attrib_dict
  uid :: string

text \<open>
  The state of the process that the module keeps: the class attributes \<^verbatim>\<open>DotGraph._uids\<close>
  (line 65) and \<^verbatim>\<open>DotGraphNode._next_id\<close> (line 209).
\<close>

record process_state =
  uids :: "string fset"
  next_id :: nat

definition initial_state :: process_state where
  "initial_state = \<lparr>uids = {||}, next_id = 0\<rparr>"

text \<open>\<^verbatim>\<open>DotGraph.__init__\<close> (lines 69 to 105); \<^verbatim>\<open>None\<close> for an omitted default dictionary.\<close>

definition DotGraph_init ::
  "string \<Rightarrow> string \<Rightarrow> attrib_dict option \<Rightarrow> attrib_dict option \<Rightarrow> process_state
    \<Rightarrow> dot_graph \<times> process_state" where
  "DotGraph_init title' body' node_defaults' edge_defaults' st =
    (let uid0 = lower (sub_nonword title');
         uid1 = (if uid0 |\<in>| uids st
                 then uid_n uid0 (unused_suffix uid0 2 (uids st))
                 else uid0)
     in (\<lparr>title = title', nodes = [], edges = [], body = body',
          node_defaults = (case node_defaults' of None \<Rightarrow> [] | Some d \<Rightarrow> d),
          edge_defaults = (case edge_defaults' of None \<Rightarrow> [] | Some d \<Rightarrow> d),
          uid = uid1\<rparr>,
         st\<lparr>uids := finsert uid1 (uids st)\<rparr>))"

text \<open>
  Several graphs constructed one after the other in one process, each from its arguments
  (title, body, node defaults, edge defaults).
\<close>

fun construct_all ::
  "(string \<times> string \<times> attrib_dict option \<times> attrib_dict option) list \<Rightarrow> process_state
    \<Rightarrow> dot_graph list \<times> process_state" where
  "construct_all [] st = ([], st)"
| "construct_all ((t, b, nd, ed) # rest) st =
    (let (g, st1) = DotGraph_init t b nd ed st;
         (gs, st2) = construct_all rest st1
     in (g # gs, st2))"

section \<open>Unique identifiers\<close>

lemma DotGraph_init_uid_fresh: "uid (fst (DotGraph_init t b nd ed st)) |\<notin>| uids st"
  by (simp add: DotGraph_init_def Let_def unused_suffix_unused)

lemma DotGraph_init_uids:
  "uids (snd (DotGraph_init t b nd ed st)) = finsert (uid (fst (DotGraph_init t b nd ed st))) (uids st)"
  by (simp add: DotGraph_init_def Let_def)

lemma construct_all_uids:
  "uids (snd (construct_all args st)) = uids st |\<union>| fset_of_list (map uid (fst (construct_all args st)))"
proof (induction args arbitrary: st)
  case Nil
  show ?case by simp
next
  case (Cons a args)
  obtain t b nd ed where a: "a = (t, b, nd, ed)" by (cases a) auto
  show ?case
    using Cons.IH[of "snd (DotGraph_init t b nd ed st)"] DotGraph_init_uids[of t b nd ed st]
    by (auto simp: a split_beta Let_def)
qed

lemma construct_all_fresh:
  "distinct (map uid (fst (construct_all args st))) \<and>
   (\<forall>g \<in> set (fst (construct_all args st)). uid g |\<notin>| uids st)"
proof (induction args arbitrary: st)
  case Nil
  show ?case by simp
next
  case (Cons a args)
  obtain t b nd ed where a: "a = (t, b, nd, ed)" by (cases a) auto
  let ?g = "fst (DotGraph_init t b nd ed st)" and ?st = "snd (DotGraph_init t b nd ed st)"
  have rest: "distinct (map uid (fst (construct_all args ?st)))"
    and new: "\<forall>g \<in> set (fst (construct_all args ?st)). uid g |\<notin>| uids ?st"
    using Cons.IH[of ?st] by simp_all
  have st: "uids ?st = finsert (uid ?g) (uids st)" by (rule DotGraph_init_uids)
  have cons: "fst (construct_all (a # args) st) = ?g # fst (construct_all args ?st)"
    by (simp add: a split_beta Let_def)
  have "uid ?g \<notin> uid ` set (fst (construct_all args ?st))"
    using new st by auto
  moreover have "\<forall>g \<in> set (fst (construct_all args ?st)). uid g |\<notin>| uids st"
    using new st by auto
  ultimately show ?case
    using rest DotGraph_init_uid_fresh[of t b nd ed st] by (simp add: cons)
qed

lemma DotGraph_init_uid_least:
  assumes "lower (sub_nonword t) |\<in>| uids st"
  shows "unused_suffix (lower (sub_nonword t)) 2 (uids st) =
         (LEAST n. 2 \<le> n \<and> uid_n (lower (sub_nonword t)) n |\<notin>| uids st)"
proof (rule Least_equality[symmetric])
  show "2 \<le> unused_suffix (lower (sub_nonword t)) 2 (uids st) \<and>
        uid_n (lower (sub_nonword t)) (unused_suffix (lower (sub_nonword t)) 2 (uids st)) |\<notin>| uids st"
    by (simp add: unused_suffix_ge unused_suffix_unused)
next
  fix k assume k: "2 \<le> k \<and> uid_n (lower (sub_nonword t)) k |\<notin>| uids st"
  show "unused_suffix (lower (sub_nonword t)) 2 (uids st) \<le> k"
  proof (rule ccontr)
    assume "\<not> unused_suffix (lower (sub_nonword t)) 2 (uids st) \<le> k"
    then have "k < unused_suffix (lower (sub_nonword t)) 2 (uids st)" by simp
    with k unused_suffix_least[of 2 k] show False by blast
  qed
qed

text \<open>
  Claim C1. The graphs constructed in one process, from any registry state on, have
  pairwise distinct unique identifiers, none of them issued before. The identifier of a
  graph is its title with every non-word character replaced by an underscore, in lower
  case; when that name is already in the registry it gets the suffix \<^verbatim>\<open>_n\<close> for the least
  \<^verbatim>\<open>n\<close> from 2 on whose suffixed name is not in the registry.
\<close>

theorem uids_pairwise_distinct:
  "distinct (map uid (fst (construct_all args st))) \<and>
   fset_of_list (map uid (fst (construct_all args st))) |\<inter>| uids st = {||} \<and>
   uid (fst (DotGraph_init t b nd ed st)) =
     (if lower (sub_nonword t) |\<in>| uids st
      then uid_n (lower (sub_nonword t))
             (LEAST n. 2 \<le> n \<and> uid_n (lower (sub_nonword t)) n |\<notin>| uids st)
      else lower (sub_nonword t))"
proof (intro conjI)
  show "distinct (map uid (fst (construct_all args st)))"
    using construct_all_fresh by blast
  show "fset_of_list (map uid (fst (construct_all args st))) |\<inter>| uids st = {||}"
    using construct_all_fresh[of args st] by (auto simp: fset_of_list_elem)
  show "uid (fst (DotGraph_init t b nd ed st)) =
     (if lower (sub_nonword t) |\<in>| uids st
      then uid_n (lower (sub_nonword t))
             (LEAST n. 2 \<le> n \<and> uid_n (lower (sub_nonword t)) n |\<notin>| uids st)
      else lower (sub_nonword t))"
    using DotGraph_init_uid_least[of t st] by (simp add: DotGraph_init_def Let_def)
qed

lemmas string_eval = lower_def sub_nonword_def is_word_def lower_char_def
  ascii_uppercase_def ascii_lowercase_def digits_def uid_n_def

lemma my_graph_twice:
  "map uid (fst (construct_all [(''My Graph!'', [], None, None), (''My Graph!'', [], None, None)]
      initial_state)) = [''my_graph_'', ''my_graph__2'']"
  by (simp add: initial_state_def DotGraph_init_def Let_def string_eval
      unused_suffix.simps[of _ 2] str_nat.simps[of 2])

theorem uids_pairwise_distinct_witness:
  "distinct (map uid (fst (construct_all
      [(''My Graph!'', [], None, None), (''My Graph!'', [], None, None)] initial_state))) \<and>
   map uid (fst (construct_all
      [(''My Graph!'', [], None, None), (''My Graph!'', [], None, None)] initial_state)) =
     [''my_graph_'', ''my_graph__2'']"
proof -
  have "distinct (map uid (fst (construct_all
      [(''My Graph!'', [], None, None), (''My Graph!'', [], None, None)] initial_state)))"
    using uids_pairwise_distinct[of
        "[(''My Graph!'', [], None, None), (''My Graph!'', [], None, None)]"
        initial_state "''My Graph!''" "[]" None None]
    by (rule conjunct1)
  then show ?thesis using my_graph_twice by blast
qed


section \<open>Link resolution\<close>

text \<open>
  The character classes \<^verbatim>\<open>\s\<close> and \<^verbatim>\<open>[\w\.]\<close> of the two patterns of \<^verbatim>\<open>link\<close>.
\<close>

definition is_space :: "char \<Rightarrow> bool" where
  "is_space c \<longleftrightarrow> c \<in> set [CHR '' '', CHR 0x09, CHR 0x0A, CHR 0x0B, CHR 0x0C, CHR 0x0D]"

definition is_name_char :: "char \<Rightarrow> bool" where
  "is_name_char c \<longleftrightarrow> is_word c \<or> c = CHR ''.''"

text \<open>
  The collaborator \<^verbatim>\<open>docstring_linker\<close>: its method \<^verbatim>\<open>url_for\<close> takes a name (in \<^verbatim>\<open>link\<close>) or a
  documented object (in \<^verbatim>\<open>add_valdoc_nodes\<close>) and returns a URL or \<^verbatim>\<open>None\<close>. Its class is not
  part of the module, so it is a parameter.
\<close>

datatype url_target = Name string | Doc nat

type_synonym linker = "url_target \<Rightarrow> string option"

text \<open>
  \<^verbatim>\<open>re.match(r'^<([\w\.]+)>$', attribs['href'])\<close> (line 133), returning group 1. In Python
  \<^verbatim>\<open>$\<close> also matches just before a newline that ends the string.
\<close>

definition match_placeholder :: "string \<Rightarrow> string option" where
  "match_placeholder v =
    (case v of
       [] \<Rightarrow> None
     | c # r \<Rightarrow>
        (let name = takeWhile is_name_char r; rest = dropWhile is_name_char r
         in if c = CHR ''<'' \<and> name \<noteq> [] \<and> (rest = ''>'' \<or> rest = [CHR ''>'', CHR 0x0A])
            then Some name else None))"

text \<open>
  \<^verbatim>\<open>DotGraph._link_href\<close> (lines 130 to 137). \<^verbatim>\<open>if url\<close> holds for a non-empty string only.
\<close>

definition link_href :: "attrib_dict \<Rightarrow> linker \<Rightarrow> attrib_dict" where
  "link_href attribs' docstring_linker =
    (case map_of attribs' ''href'' of
       None \<Rightarrow> attribs'
     | Some v \<Rightarrow>
        (case match_placeholder v of
           None \<Rightarrow> attribs'
         | Some name \<Rightarrow>
            (case docstring_linker (Name name) of
               None \<Rightarrow> AList.delete ''href'' attribs'
             | Some url \<Rightarrow>
                if url \<noteq> [] then AList.update ''href'' url attribs'
                else AList.delete ''href'' attribs')))"

text \<open>
  The pattern of line 127, \<^verbatim>\<open>href\s*=\s*['"]?<([\w\.]+)>['"]?\s*(,?)\<close>, matched at the start of
  a string: the result is group 1, group 2 and the text after the match. Every greedy
  part is followed by a character outside its class or by optional parts only, so the
  first attempt of the matcher is the only one.
\<close>

definition opt_quote :: "string \<Rightarrow> string" where
  "opt_quote s = (case s of [] \<Rightarrow> [] | c # r \<Rightarrow> if c = CHR 0x27 \<or> c = CHR 0x22 then r else s)"

definition match_href :: "string \<Rightarrow> (string \<times> string \<times> string) option" where
  "match_href s =
    (if take 4 s \<noteq> ''href'' then None
     else case dropWhile is_space (drop 4 s) of
       [] \<Rightarrow> None
     | e # r1 \<Rightarrow>
        if e \<noteq> CHR ''='' then None
        else case opt_quote (dropWhile is_space r1) of
          [] \<Rightarrow> None
        | l # r2 \<Rightarrow>
           if l \<noteq> CHR ''<'' \<or> takeWhile is_name_char r2 = [] then None
           else case dropWhile is_name_char r2 of
             [] \<Rightarrow> None
           | g # r3 \<Rightarrow>
              if g \<noteq> CHR ''>'' then None
              else case dropWhile is_space (opt_quote r3) of
                [] \<Rightarrow> Some (takeWhile is_name_char r2, [], [])
              | k # r5 \<Rightarrow>
                 if k = CHR '','' then Some (takeWhile is_name_char r2, '','', r5)
                 else Some (takeWhile is_name_char r2, [], k # r5))"

text \<open>The replacement function \<^verbatim>\<open>subfunc\<close> (lines 123 to 126).\<close>

definition subfunc :: "linker \<Rightarrow> string \<Rightarrow> string \<Rightarrow> string" where
  "subfunc docstring_linker name comma =
    (case docstring_linker (Name name) of
       None \<Rightarrow> []
     | Some url \<Rightarrow>
        if url \<noteq> [] then ''href='' @ [CHR 0x22] @ url @ [CHR 0x22] @ comma else [])"

lemma length_opt_quote: "length (opt_quote s) \<le> length s"
  by (simp add: opt_quote_def split: list.splits)

lemma length_dropWhile: "length (dropWhile P s) \<le> length s"
  by (induction s) auto

lemma match_href_shorter:
  assumes "match_href s = Some (name, comma, rest)"
  shows "length rest < length s"
proof -
  from assms have t: "take 4 s = ''href''" by (auto simp: match_href_def split: if_splits)
  from assms t obtain r1 where r1: "dropWhile is_space (drop 4 s) = CHR ''='' # r1"
    by (auto simp: match_href_def split: if_splits list.splits)
  from assms t r1 obtain r2 where r2: "opt_quote (dropWhile is_space r1) = CHR ''<'' # r2"
    by (auto simp: match_href_def split: if_splits list.splits)
  from assms t r1 r2 obtain r3 where r3: "dropWhile is_name_char r2 = CHR ''>'' # r3"
    by (auto simp: match_href_def split: if_splits list.splits)
  from assms t r1 r2 r3 have m:
    "(case dropWhile is_space (opt_quote r3) of
        [] \<Rightarrow> Some (takeWhile is_name_char r2, [], [])
      | k # r5 \<Rightarrow>
          if k = CHR '','' then Some (takeWhile is_name_char r2, '','', r5)
          else Some (takeWhile is_name_char r2, [], k # r5)) = Some (name, comma, rest)"
    by (simp add: match_href_def split: if_splits)
  have "length rest \<le> length (dropWhile is_space (opt_quote r3))"
  proof (cases "dropWhile is_space (opt_quote r3)")
    case Nil
    from m[unfolded Nil] show ?thesis unfolding Nil by simp
  next
    case (Cons k r5)
    from m[unfolded Cons] show ?thesis unfolding Cons by (auto split: if_splits)
  qed
  also have "\<dots> \<le> length r3"
    using length_dropWhile[of is_space "opt_quote r3"] length_opt_quote[of r3] by simp
  also have "\<dots> < length r2" using length_dropWhile[of is_name_char r2] r3 by simp
  also have "\<dots> < length r1"
    using length_dropWhile[of is_space r1] length_opt_quote[of "dropWhile is_space r1"] r2 by simp
  also have "\<dots> < length (drop 4 s)" using length_dropWhile[of is_space "drop 4 s"] r1 by simp
  also have "\<dots> \<le> length s" by simp
  finally show ?thesis .
qed

text \<open>
  \<^verbatim>\<open>re.sub(pattern, subfunc, self.body)\<close> (lines 127 and 128): one scan from left to right;
  a match is replaced and the scan goes on after it, any other character is copied.
\<close>

function sub_href :: "linker \<Rightarrow> string \<Rightarrow> string" where
  "sub_href docstring_linker s =
    (case s of
       [] \<Rightarrow> []
     | c # r \<Rightarrow>
        (case match_href s of
           None \<Rightarrow> c # sub_href docstring_linker r
         | Some (name, comma, rest) \<Rightarrow> subfunc docstring_linker name comma @ sub_href docstring_linker rest))"
  by pat_completeness auto
termination
  by (relation "measure (\<lambda>(l, s). length s)") (auto dest: match_href_shorter)

declare sub_href.simps [simp del]

text \<open>
  \<^verbatim>\<open>DotGraph.link\<close> (lines 107 to 128). The second loop is \<^verbatim>\<open>for edge in self.nodes\<close> (line
  119): it runs over the nodes again.
\<close>

definition link :: "dot_graph \<Rightarrow> linker \<Rightarrow> dot_graph" where
  "link g docstring_linker =
    (let g1 = g\<lparr>node_defaults := link_href (node_defaults g) docstring_linker\<rparr>;
         g2 = g1\<lparr>nodes := map (\<lambda>node. node\<lparr>attribs := link_href (attribs node) docstring_linker\<rparr>) (nodes g1)\<rparr>;
         g3 = g2\<lparr>edge_defaults := link_href (edge_defaults g2) docstring_linker\<rparr>;
         g4 = g3\<lparr>nodes := map (\<lambda>edge. edge\<lparr>attribs := link_href (attribs edge) docstring_linker\<rparr>) (nodes g3)\<rparr>
     in g4\<lparr>body := sub_href docstring_linker (body g4)\<rparr>)"

text \<open>
  An attribute dictionary whose \<^verbatim>\<open>href\<close> is a placeholder \<^verbatim>\<open><name>\<close>; a body that holds a match
  of the body pattern; a graph that holds either anywhere.
\<close>

definition placeholder_href :: "attrib_dict \<Rightarrow> bool" where
  "placeholder_href a =
    (case map_of a ''href'' of None \<Rightarrow> False | Some v \<Rightarrow> match_placeholder v \<noteq> None)"

fun body_placeholder :: "string \<Rightarrow> bool" where
  "body_placeholder [] = False"
| "body_placeholder (c # r) = (match_href (c # r) \<noteq> None \<or> body_placeholder r)"

definition example_linker :: linker where
  "example_linker target = (if target = Name ''a.b'' then Some ''a.b-module.html'' else None)"

definition example_graph :: dot_graph where
  "example_graph =
    \<lparr>title = ''Example'',
     nodes = [\<lparr>attribs = [(''label'', ''a.b''), (''href'', ''<a.b>'')], node_id = 0\<rparr>,
              \<lparr>attribs = [(''label'', ''c''), (''href'', ''<c>'')], node_id = 1\<rparr>],
     edges = [\<lparr>attribs = [(''href'', ''<a.b>'')], start = 0, end_node = 1\<rparr>],
     body = ''hrhref=<c>ef=<a.b>'',
     node_defaults = [(''href'', ''<c>'')],
     edge_defaults = [(''href'', ''<a.b>'')],
     uid = ''example''\<rparr>"

definition renaming_linker :: linker where
  "renaming_linker target = (if target = Name ''c'' then Some ''<a.b>'' else None)"

lemma link_edges: "edges (link g l) = edges g"
  by (simp add: link_def Let_def)

lemma link_node_defaults: "node_defaults (link g l) = link_href (node_defaults g) l"
  by (simp add: link_def Let_def)

lemma link_edge_defaults: "edge_defaults (link g l) = link_href (edge_defaults g) l"
  by (simp add: link_def Let_def)

lemma link_nodes:
  "nodes (link g l) = map (\<lambda>n. n\<lparr>attribs := link_href (link_href (attribs n) l) l\<rparr>) (nodes g)"
  by (simp add: link_def Let_def comp_def)

lemma link_body: "body (link g l) = sub_href l (body g)"
  by (simp add: link_def Let_def)

text \<open>
  Claim C3. For every graph and resolver, \<^verbatim>\<open>link\<close> leaves the list of edges, each with its own
  attributes, exactly as it was. It resolves the node defaults and the edge defaults once
  and the attributes of every node twice (the loop meant for the edges runs over the nodes).
\<close>

theorem link_never_visits_edges:
  "edges (link g l) = edges g \<and>
   node_defaults (link g l) = link_href (node_defaults g) l \<and>
   edge_defaults (link g l) = link_href (edge_defaults g) l \<and>
   nodes (link g l) = map (\<lambda>n. n\<lparr>attribs := link_href (link_href (attribs n) l) l\<rparr>) (nodes g)"
  by (simp add: link_edges link_node_defaults link_edge_defaults link_nodes)

lemma example_link_edges:
  "map attribs (edges (link example_graph example_linker)) = [[(''href'', ''<a.b>'')]]"
  by (simp add: link_edges) (simp add: example_graph_def)

lemma example_link_nodes:
  "map attribs (nodes (link example_graph example_linker)) =
     [[(''label'', ''a.b''), (''href'', ''a.b-module.html'')], [(''label'', ''c'')]]"
  by (simp add: link_nodes) (simp add: example_graph_def example_linker_def link_href_def
      match_placeholder_def is_name_char_def is_word_def
      ascii_uppercase_def ascii_lowercase_def digits_def)

theorem link_never_visits_edges_witness:
  "edges (link example_graph example_linker) = edges example_graph \<and>
   map attribs (edges (link example_graph example_linker)) = [[(''href'', ''<a.b>'')]] \<and>
   map attribs (nodes (link example_graph example_linker)) =
     [[(''label'', ''a.b''), (''href'', ''a.b-module.html'')], [(''label'', ''c'')]]"
  using link_never_visits_edges[of example_graph example_linker] example_link_edges example_link_nodes
  by blast

lemma map_of_delete_same: "map_of (AList.delete k a) k = None"
  by (simp add: delete_conv')

lemma link_href_no_placeholder:
  assumes "\<forall>name url. l (Name name) = Some url \<longrightarrow> match_placeholder url = None"
  shows "\<not> placeholder_href (link_href a l)"
proof (cases "map_of a ''href''")
  case None
  then show ?thesis by (simp add: placeholder_href_def link_href_def)
next
  case (Some v)
  note v = this
  show ?thesis
  proof (cases "match_placeholder v")
    case None
    with v show ?thesis by (simp add: placeholder_href_def link_href_def)
  next
    case (Some name)
    note name = this
    show ?thesis
    proof (cases "l (Name name)")
      case None
      with v name show ?thesis
        by (simp add: placeholder_href_def link_href_def map_of_delete_same)
    next
      case (Some url)
      with assms have "match_placeholder url = None" by blast
      with v name Some show ?thesis
        by (simp add: placeholder_href_def link_href_def map_of_delete_same update_conv')
    qed
  qed
qed

lemma link_href_id: "\<not> placeholder_href a \<Longrightarrow> link_href a l = a"
  by (auto simp: placeholder_href_def link_href_def split: option.splits)

lemma sub_href_id: "\<not> body_placeholder s \<Longrightarrow> sub_href l s = s"
proof (induction s)
  case Nil
  show ?case by (simp add: sub_href.simps[of l "[]"])
next
  case (Cons c r)
  from Cons.prems have m: "match_href (c # r) = None" and r: "\<not> body_placeholder r"
    by (simp_all del: not_None_eq)
  from Cons.IH[OF r] show ?case
    by (subst sub_href.simps) (simp add: m)
qed

text \<open>Example inputs for the theorems about \<^verbatim>\<open>link\<close>.\<close>

definition unknown_linker :: linker where
  "unknown_linker target = None"

definition graph_placeholder :: "dot_graph \<Rightarrow> bool" where
  "graph_placeholder g \<longleftrightarrow>
     placeholder_href (node_defaults g) \<or> list_ex (\<lambda>n. placeholder_href (attribs n)) (nodes g) \<or>
     placeholder_href (edge_defaults g) \<or> list_ex (\<lambda>e. placeholder_href (attribs e)) (edges g) \<or>
     body_placeholder (body g)"

definition sane_linker :: "linker \<Rightarrow> bool" where
  "sane_linker l \<longleftrightarrow> (\<forall>name url. l (Name name) = Some url \<longrightarrow> match_placeholder url = None)"

definition plain_graph :: dot_graph where
  "plain_graph = example_graph\<lparr>body := ''node7 [href=<a.b>, color=red]''\<rparr>"

lemmas char_eval = is_name_char_def is_word_def is_space_def
  ascii_uppercase_def ascii_lowercase_def digits_def

lemma example_unknown_body: "sub_href unknown_linker ''hrhref=<c>ef=<a.b>'' = ''href=<a.b>''"
  by code_simp

lemma example_unknown_body2: "sub_href unknown_linker ''href=<a.b>'' = []"
  by code_simp

text \<open>
  Claim C4 fails as stated. With a resolver that knows no URL, the placeholder on the edge
  of the example graph is still there after \<^verbatim>\<open>link\<close>, and the body \<^verbatim>\<open>hrhref=<c>ef=<a.b>\<close> becomes
  \<^verbatim>\<open>href=<a.b>\<close>, which a second \<^verbatim>\<open>link\<close> removes; with a resolver whose URL for \<^verbatim>\<open>c\<close> is
  \<^verbatim>\<open><a.b>\<close> the node defaults hold a placeholder after the first \<^verbatim>\<open>link\<close> and lose it in the
  second.
\<close>

theorem link_leaves_placeholders:
  "graph_placeholder (link example_graph unknown_linker) \<and>
   map attribs (edges (link example_graph unknown_linker)) = [[(''href'', ''<a.b>'')]] \<and>
   body (link example_graph unknown_linker) = ''href=<a.b>'' \<and>
   body (link (link example_graph unknown_linker) unknown_linker) = [] \<and>
   link (link example_graph unknown_linker) unknown_linker \<noteq> link example_graph unknown_linker \<and>
   node_defaults (link example_graph renaming_linker) = [(''href'', ''<a.b>'')] \<and>
   node_defaults (link (link example_graph renaming_linker) renaming_linker) = []"
proof -
  have e: "map attribs (edges (link example_graph unknown_linker)) = [[(''href'', ''<a.b>'')]]"
    by (simp add: link_edges) (simp add: example_graph_def)
  have p: "placeholder_href [(''href'', ''<a.b>'')]"
    by (simp add: placeholder_href_def match_placeholder_def char_eval)
  have b1: "body (link example_graph unknown_linker) = ''href=<a.b>''"
    by (simp add: link_body) (simp add: example_graph_def example_unknown_body)
  have b2: "body (link (link example_graph unknown_linker) unknown_linker) = []"
    by (simp add: link_body[of "link example_graph unknown_linker"] b1 example_unknown_body2)
  have n1: "node_defaults (link example_graph renaming_linker) = [(''href'', ''<a.b>'')]"
    by (simp add: link_node_defaults)
      (simp add: example_graph_def renaming_linker_def link_href_def match_placeholder_def char_eval)
  have n2: "node_defaults (link (link example_graph renaming_linker) renaming_linker) = []"
    by (simp add: link_node_defaults[of "link example_graph renaming_linker"] n1)
      (simp add: renaming_linker_def link_href_def match_placeholder_def char_eval)
  have g: "graph_placeholder (link example_graph unknown_linker)"
    using e p by (simp add: graph_placeholder_def link_edges) (simp add: example_graph_def)
  have ne: "link (link example_graph unknown_linker) unknown_linker \<noteq> link example_graph unknown_linker"
    using b1 b2 by auto
  from g e b1 b2 ne n1 n2 show ?thesis by blast
qed

text \<open>
  Claim C4, amended. For every graph, and every resolver none of whose URLs has the
  placeholder form \<^verbatim>\<open><name>\<close>: after \<^verbatim>\<open>link\<close> no placeholder is left in the node defaults, in
  the attributes of any node or in the edge defaults, and a second \<^verbatim>\<open>link\<close> leaves the node
  defaults, the nodes, the edge defaults and the edges unchanged. When the body after the
  first \<^verbatim>\<open>link\<close> holds no match of the body pattern, the second \<^verbatim>\<open>link\<close> changes nothing at all.
\<close>

theorem link_twice_attributes:
  assumes "sane_linker l"
  shows "\<not> placeholder_href (node_defaults (link g l)) \<and>
         \<not> list_ex (\<lambda>n. placeholder_href (attribs n)) (nodes (link g l)) \<and>
         \<not> placeholder_href (edge_defaults (link g l)) \<and>
         node_defaults (link (link g l) l) = node_defaults (link g l) \<and>
         nodes (link (link g l) l) = nodes (link g l) \<and>
         edge_defaults (link (link g l) l) = edge_defaults (link g l) \<and>
         edges (link (link g l) l) = edges (link g l) \<and>
         (\<not> body_placeholder (body (link g l)) \<longrightarrow> link (link g l) l = link g l)"
proof -
  from assms have sane: "\<forall>name url. l (Name name) = Some url \<longrightarrow> match_placeholder url = None"
    by (simp add: sane_linker_def)
  have np: "\<And>a. \<not> placeholder_href (link_href a l)"
    using sane by (rule link_href_no_placeholder)
  have idem: "\<And>a. link_href (link_href a l) l = link_href a l"
    using np by (rule link_href_id)
  have nd: "\<not> placeholder_href (node_defaults (link g l))"
    by (simp add: link_node_defaults np)
  have ed: "\<not> placeholder_href (edge_defaults (link g l))"
    by (simp add: link_edge_defaults np)
  have ns: "\<not> list_ex (\<lambda>n. placeholder_href (attribs n)) (nodes (link g l))"
    by (simp add: link_nodes list_ex_iff np)
  have nd2: "node_defaults (link (link g l) l) = node_defaults (link g l)"
    by (simp add: link_node_defaults idem)
  have ed2: "edge_defaults (link (link g l) l) = edge_defaults (link g l)"
    by (simp add: link_edge_defaults idem)
  have ns2: "nodes (link (link g l) l) = nodes (link g l)"
    by (simp add: link_nodes idem comp_def)
  have es2: "edges (link (link g l) l) = edges (link g l)"
    by (simp add: link_edges)
  have whole: "link (link g l) l = link g l" if b: "\<not> body_placeholder (body (link g l))"
  proof -
    have "body (link (link g l) l) = body (link g l)"
      using b by (simp add: link_body[of "link g l"] sub_href_id)
    moreover have "title (link (link g l) l) = title (link g l)" "uid (link (link g l) l) = uid (link g l)"
      by (simp_all add: link_def Let_def)
    moreover have "dot_graph.more (link (link g l) l) = dot_graph.more (link g l)"
      by simp
    ultimately show ?thesis using nd2 ed2 ns2 es2 by (intro dot_graph.equality) simp_all
  qed
  from nd ns ed nd2 ns2 ed2 es2 whole show ?thesis by blast
qed

lemma sane_example_linker: "sane_linker example_linker"
  by (simp add: sane_linker_def example_linker_def match_placeholder_def)

lemma plain_body: "sub_href example_linker ''node7 [href=<a.b>, color=red]'' =
    ''node7 [href='' @ [CHR 0x22] @ ''a.b-module.html'' @ [CHR 0x22] @ '', color=red]''"
  by code_simp

lemma plain_body_clean:
  "\<not> body_placeholder (''node7 [href='' @ [CHR 0x22] @ ''a.b-module.html'' @ [CHR 0x22] @ '', color=red]'')"
  by code_simp

theorem link_twice_attributes_witness:
  "sane_linker example_linker \<and>
   \<not> body_placeholder (body (link plain_graph example_linker)) \<and>
   link (link plain_graph example_linker) example_linker = link plain_graph example_linker \<and>
   \<not> placeholder_href (node_defaults (link plain_graph example_linker))"
proof -
  have b: "\<not> body_placeholder (body (link plain_graph example_linker))"
    using plain_body_clean by (simp add: link_body plain_graph_def example_graph_def plain_body)
  with link_twice_attributes[OF sane_example_linker, of plain_graph] sane_example_linker
  show ?thesis by blast
qed

section \<open>Serialization\<close>

text \<open>\<^verbatim>\<open>sep.join(xs)\<close>, and \<^verbatim>\<open>','.join(['%s="%s"' % (k,v) for (k,v) in attribs.items()])\<close>.\<close>

fun join :: "string \<Rightarrow> string list \<Rightarrow> string" where
  "join sep [] = []"
| "join sep [x] = x"
| "join sep (x # y # r) = x @ sep @ join sep (y # r)"

definition fmt_attribs :: "attrib_dict \<Rightarrow> string" where
  "fmt_attribs a = join '','' (map (\<lambda>(k, v). k @ ''='' @ [CHR 0x22] @ v @ [CHR 0x22]) a)"

text \<open>
  \<^verbatim>\<open>DotGraphNode.to_dotfile\<close> (lines 216 to 223), \<^verbatim>\<open>DotGraphEdge.to_dotfile\<close> (lines 236 to
  243) and \<^verbatim>\<open>DotGraph.to_dotfile\<close> (lines 187 to 206).
\<close>

definition DotGraphNode_to_dotfile :: "dot_node \<Rightarrow> string" where
  "DotGraphNode_to_dotfile n =
    (let a = fmt_attribs (attribs n);
         a' = (if a \<noteq> [] then '' ['' @ a @ '']'' else a)
     in ''node'' @ str_nat (node_id n) @ a')"

definition DotGraphEdge_to_dotfile :: "dot_edge \<Rightarrow> string" where
  "DotGraphEdge_to_dotfile e =
    (let a = fmt_attribs (attribs e);
         a' = (if a \<noteq> [] then '' ['' @ a @ '']'' else a)
     in ''node'' @ str_nat (start e) @ '' -> node'' @ str_nat (end_node e) @ a')"

definition to_dotfile :: "dot_graph \<Rightarrow> string" where
  "to_dotfile g =
    (let lines0 = [''digraph '' @ uid g @ '' {'',
                   ''node ['' @ fmt_attribs (node_defaults g) @ '']'',
                   ''edge ['' @ fmt_attribs (edge_defaults g) @ '']''];
         lines1 = (if body g \<noteq> [] then lines0 @ [body g] else lines0);
         lines2 = lines1 @ [''/* Nodes */''];
         lines3 = lines2 @ map DotGraphNode_to_dotfile (nodes g);
         lines4 = lines3 @ [''/* Edges */''];
         lines5 = lines4 @ map DotGraphEdge_to_dotfile (edges g);
         lines6 = lines5 @ [''}'']
     in join [CHR 0x0A] lines6)"

definition empty_graph :: dot_graph where
  "empty_graph = fst (DotGraph_init ''G'' [] (Some [(''shape'', ''box'')]) None initial_state)"


text \<open>
  Claim C8 fails as stated: the serialization of a graph with no node, no edge and an
  empty body has six lines, not four. Between the line of the edge defaults and the
  closing brace stand the two section comments.
\<close>

theorem empty_graph_has_section_comments:
  "nodes empty_graph = [] \<and> edges empty_graph = [] \<and> body empty_graph = [] \<and>
   to_dotfile empty_graph =
     join [CHR 0x0A] [''digraph g {'', ''node [shape='' @ [CHR 0x22] @ ''box'' @ [CHR 0x22] @ '']'',
                      ''edge []'', ''/* Nodes */'', ''/* Edges */'', ''}''] \<and>
   to_dotfile empty_graph \<noteq>
     join [CHR 0x0A] [''digraph '' @ uid empty_graph @ '' {'',
                      ''node ['' @ fmt_attribs (node_defaults empty_graph) @ '']'',
                      ''edge ['' @ fmt_attribs (edge_defaults empty_graph) @ '']'', ''}'']"
  by (simp add: empty_graph_def DotGraph_init_def initial_state_def to_dotfile_def fmt_attribs_def
      Let_def string_eval)

text \<open>
  Claim C8, amended. Serializing a graph with no node, no edge and an empty body yields
  exactly the header line naming the graph by its unique identifier, the line of the node
  defaults, the line of the edge defaults, the two section comment lines \<^verbatim>\<open>/* Nodes */\<close> and
  \<^verbatim>\<open>/* Edges */\<close>, and the closing brace, joined by newlines, with no node line and no edge
  line.
\<close>

theorem to_dotfile_empty:
  assumes "nodes g = []" and "edges g = []" and "body g = []"
  shows "to_dotfile g =
     join [CHR 0x0A] [''digraph '' @ uid g @ '' {'',
                      ''node ['' @ fmt_attribs (node_defaults g) @ '']'',
                      ''edge ['' @ fmt_attribs (edge_defaults g) @ '']'',
                      ''/* Nodes */'', ''/* Edges */'', ''}'']"
  using assms by (simp add: to_dotfile_def Let_def)

theorem to_dotfile_empty_witness:
  "nodes empty_graph = [] \<and> edges empty_graph = [] \<and> body empty_graph = [] \<and>
   to_dotfile empty_graph =
     join [CHR 0x0A] [''digraph '' @ uid empty_graph @ '' {'',
                      ''node ['' @ fmt_attribs (node_defaults empty_graph) @ '']'',
                      ''edge ['' @ fmt_attribs (edge_defaults empty_graph) @ '']'',
                      ''/* Nodes */'', ''/* Edges */'', ''}'']"
proof -
  have e: "nodes empty_graph = []" "edges empty_graph = []" "body empty_graph = []"
    by (simp_all add: empty_graph_def DotGraph_init_def Let_def)
  from to_dotfile_empty[OF e] e show ?thesis by blast
qed



section \<open>Rendering\<close>

text \<open>
  The renderer is an external process. The environment says which of the modules
  \<^verbatim>\<open>subprocess\<close> and \<^verbatim>\<open>popen2\<close> can be imported, which commands can be started, and which files
  can be opened and written. A started child is a function from the text offered on its
  input channel to what the module can observe of it: whether \<^verbatim>\<open>to_child.write\<close> and
  \<^verbatim>\<open>to_child.close\<close> succeed (they raise \<^verbatim>\<open>IOError\<close>, a broken pipe, when the child has exited or
  closed its input without reading the text), the pieces of text it writes, in order, each
  to its standard output or to its error output, the number of polls that still find it
  running, and its exit status. A child that never exits is outside this model.
\<close>

datatype py_error = ImportError | OSError | IOError | KeyError

datatype command = Argv "string list" | Shell string

datatype channel = Stdout | Stderr

record child =
  accepts_input :: bool
  writes :: "(channel \<times> string) list"
  polls_running :: nat
  exit_status :: int

record environment =
  has_subprocess :: bool
  has_popen2 :: bool
  spawn :: "command \<Rightarrow> (string \<Rightarrow> child) option"
  can_open :: "string \<Rightarrow> bool"
  can_write :: "string \<Rightarrow> string \<Rightarrow> bool"

text \<open>
  What the child wrote to its standard output, and what it wrote to both channels, in the
  order of writing.
\<close>

definition stdout_text :: "child \<Rightarrow> string" where
  "stdout_text c = concat (map snd (filter (\<lambda>w. fst w = Stdout) (writes c)))"

definition merged_text :: "child \<Rightarrow> string" where
  "merged_text c = concat (map snd (writes c))"

text \<open>
  The pipe object, after \<^verbatim>\<open>to_child\<close> is closed. \<^verbatim>\<open>from_child\<close> is the standard output of the child
  for \<^verbatim>\<open>subprocess.Popen(cmd, stdin=PIPE, stdout=PIPE, stderr=PIPE)\<close> (line 163) and its
  standard output and error output together for \<^verbatim>\<open>popen2.Popen4(cmd)\<close> (line 169).
  \<^verbatim>\<open>from_child.read()\<close> returns everything up to the end of the stream; \<^verbatim>\<open>wait()\<close> returns the exit
  status; \<^verbatim>\<open>poll()\<close> returns the exit status once the child has exited, and before that \<^verbatim>\<open>None\<close>
  for a \<^verbatim>\<open>Popen\<close> object and \<^verbatim>\<open>-1\<close> for a \<^verbatim>\<open>Popen4\<close> object.
\<close>

record pipe =
  unread :: string
  running :: nat
  exitval :: int
  is_Popen4 :: bool

definition Popen :: "child \<Rightarrow> pipe" where
  "Popen c = \<lparr>unread = stdout_text c, running = polls_running c, exitval = exit_status c,
              is_Popen4 = False\<rparr>"

definition Popen4 :: "child \<Rightarrow> pipe" where
  "Popen4 c = \<lparr>unread = merged_text c, running = polls_running c, exitval = exit_status c,
               is_Popen4 = True\<rparr>"

definition poll :: "pipe \<Rightarrow> int option \<times> pipe" where
  "poll p = (if running p = 0 then (Some (exitval p), p)
             else (if is_Popen4 p then Some (- 1) else None, p\<lparr>running := running p - 1\<rparr>))"

definition read :: "pipe \<Rightarrow> string \<times> pipe" where
  "read p = (unread p, p\<lparr>unread := []\<rparr>)"

definition wait :: "pipe \<Rightarrow> int \<times> pipe" where
  "wait p = (exitval p, p\<lparr>running := 0\<rparr>)"

text \<open>\<^verbatim>\<open>DOT_COMMAND = 'dot'\<close> (line 36).\<close>

definition DOT_COMMAND :: string where
  "DOT_COMMAND = ''dot''"

text \<open>The loop of lines 175 and 176, \<^verbatim>\<open>while pipe.poll() is None: result += from_child.read()\<close>.\<close>

function read_loop :: "pipe \<Rightarrow> string \<Rightarrow> string \<times> pipe" where
  "read_loop p result =
    (case poll p of
       (None, p1) \<Rightarrow> (case read p1 of (s, p2) \<Rightarrow> read_loop p2 (result @ s))
     | (Some v, p1) \<Rightarrow> (result, p1))"
  by pat_completeness auto
termination
  by (relation "measure (\<lambda>(p, result). running p)")
     (auto simp: poll_def read_def split: if_splits)

declare read_loop.simps [simp del]

text \<open>
  \<^verbatim>\<open>DotGraph.render\<close> from line 174 on, once the dot file is written to the child; the second
  component holds the messages passed to \<^verbatim>\<open>log.warning\<close>.
\<close>

definition render_pipe :: "pipe \<Rightarrow> string option \<times> string list" where
  "render_pipe p =
    (case read_loop p [] of (result, p1) \<Rightarrow>
     case read p1 of (s, p2) \<Rightarrow>
     case wait p2 of (exitval', p3) \<Rightarrow>
       if exitval' \<noteq> 0
       then (None, [''Unable to render Graphviz dot graph:'' @ [CHR 0x0A] @ fst (read p3)])
       else (Some (result @ s), []))"

text \<open>
  \<^verbatim>\<open>DotGraph.render\<close> (lines 154 to 185). Only \<^verbatim>\<open>ImportError\<close> is caught (line 166), and only
  around the first way to start the child: a command that cannot be started raises
  \<^verbatim>\<open>OSError\<close> to the caller, a missing \<^verbatim>\<open>popen2\<close> raises \<^verbatim>\<open>ImportError\<close>, and \<^verbatim>\<open>to_child.write\<close> and
  \<^verbatim>\<open>to_child.close\<close> (lines 172 and 173) stand outside any handler, so that their \<^verbatim>\<open>IOError\<close> is
  raised to the caller too.
\<close>

definition render ::
  "environment \<Rightarrow> dot_graph \<Rightarrow> string \<Rightarrow> py_error + string option \<times> string list" where
  "render env g language =
    (if has_subprocess env then
       (case spawn env (Argv [DOT_COMMAND, ''-T'' @ language]) of
          None \<Rightarrow> Inl OSError
        | Some c \<Rightarrow>
           if \<not> accepts_input (c (to_dotfile g)) then Inl IOError
           else Inr (render_pipe (Popen (c (to_dotfile g)))))
     else if has_popen2 env then
       (case spawn env (Shell (DOT_COMMAND @ '' -T'' @ language)) of
          None \<Rightarrow> Inl OSError
        | Some c \<Rightarrow>
           if \<not> accepts_input (c (to_dotfile g)) then Inl IOError
           else Inr (render_pipe (Popen4 (c (to_dotfile g)))))
     else Inl ImportError)"

text \<open>
  \<^verbatim>\<open>DotGraph.write\<close> (lines 139 to 152) on a file system: the contents of the files by path,
  and the paths of the handles that are open. \<^verbatim>\<open>open(filename, 'w')\<close> creates or truncates the
  file.
\<close>

record file_system =
  files :: "(string \<times> string) list"
  open_files :: "string list"

definition DotGraph_write ::
  "environment \<Rightarrow> dot_graph \<Rightarrow> string \<Rightarrow> string \<Rightarrow> file_system
    \<Rightarrow> (py_error + bool) \<times> file_system \<times> string list" where
  "DotGraph_write env g filename language fs =
    (case render env g language of
       Inl e \<Rightarrow> (Inl e, fs, [])
     | Inr (s, warnings) \<Rightarrow>
        (case s of
           None \<Rightarrow> (Inr False, fs, warnings)
         | Some text \<Rightarrow>
            if \<not> can_open env filename then (Inl IOError, fs, warnings)
            else
              (let fs1 = fs\<lparr>files := AList.update filename [] (files fs),
                            open_files := filename # open_files fs\<rparr>
               in if \<not> can_write env filename text then (Inl IOError, fs1, warnings)
                  else
                    (let fs2 = fs1\<lparr>files := AList.update filename text (files fs1)\<rparr>;
                         fs3 = fs2\<lparr>open_files := remove1 filename (open_files fs2)\<rparr>
                     in (Inr True, fs3, warnings)))))"

text \<open>
  The renderer was started, by \<^verbatim>\<open>subprocess.Popen\<close> or else by \<^verbatim>\<open>popen2.Popen4\<close>; and the text
  that arrives on \<^verbatim>\<open>from_child\<close> in either case.
\<close>

definition launched :: "environment \<Rightarrow> string \<Rightarrow> (string \<Rightarrow> child) \<Rightarrow> bool" where
  "launched env language c \<longleftrightarrow>
     has_subprocess env \<and> spawn env (Argv [DOT_COMMAND, ''-T'' @ language]) = Some c \<or>
     \<not> has_subprocess env \<and> has_popen2 env \<and>
       spawn env (Shell (DOT_COMMAND @ '' -T'' @ language)) = Some c"





lemma render_launched:
  "launched env language c \<Longrightarrow> accepts_input (c (to_dotfile g)) \<Longrightarrow>
   render env g language =
     Inr (render_pipe (if has_subprocess env then Popen (c (to_dotfile g))
                       else Popen4 (c (to_dotfile g))))"
  by (auto simp: launched_def render_def)



text \<open>
  Example environments: a renderer that succeeds, one that fails, one that rejects the
  output format and exits without reading its input, one that warns on its error output
  and succeeds, a full disk, a directory that cannot be written, and a Python with
  neither module.
\<close>

definition gif_child :: "string \<Rightarrow> child" where
  "gif_child input =
    \<lparr>accepts_input = True, writes = [(Stdout, ''GIF89a'')], polls_running = 2, exit_status = 0\<rparr>"

definition failing_child :: "string \<Rightarrow> child" where
  "failing_child input = \<lparr>accepts_input = True, writes = [], polls_running = 1, exit_status = 1\<rparr>"



definition working_env :: environment where
  "working_env =
    \<lparr>has_subprocess = True, has_popen2 = False,
     spawn = (\<lambda>c. if c = Argv [''dot'', ''-Tgif''] then Some gif_child else None),
     can_open = (\<lambda>filename. True), can_write = (\<lambda>filename text. True)\<rparr>"

definition failing_env :: environment where
  "failing_env =
    \<lparr>has_subprocess = False, has_popen2 = True,
     spawn = (\<lambda>c. if c = Shell ''dot -Tgif'' then Some failing_child else None),
     can_open = (\<lambda>filename. True), can_write = (\<lambda>filename text. True)\<rparr>"



definition full_disk_env :: environment where
  "full_disk_env = working_env\<lparr>can_write := (\<lambda>filename text. False)\<rparr>"

definition read_only_env :: environment where
  "read_only_env = working_env\<lparr>can_open := (\<lambda>filename. False)\<rparr>"

definition bare_env :: environment where
  "bare_env = working_env\<lparr>has_subprocess := False\<rparr>"

definition no_files :: file_system where
  "no_files = \<lparr>files = [], open_files = []\<rparr>"

lemma launched_working: "launched working_env ''gif'' gif_child"
  by (simp add: launched_def working_env_def DOT_COMMAND_def)

lemma launched_full_disk: "launched full_disk_env ''gif'' gif_child"
  by (simp add: launched_def full_disk_env_def working_env_def DOT_COMMAND_def)

lemma launched_read_only: "launched read_only_env ''gif'' gif_child"
  by (simp add: launched_def read_only_env_def working_env_def DOT_COMMAND_def)

lemma launched_failing: "launched failing_env ''gif'' failing_child"
  by (simp add: launched_def failing_env_def DOT_COMMAND_def)



lemma render_pipe_gif: "render_pipe (Popen (gif_child input)) = (Some ''GIF89a'', [])"
  by (simp add: render_pipe_def gif_child_def Popen_def stdout_text_def read_loop.simps poll_def
      read_def wait_def)

lemma render_pipe_failing:
  "render_pipe (Popen4 (failing_child input)) =
     (None, [''Unable to render Graphviz dot graph:'' @ [CHR 0x0A]])"
  by (simp add: render_pipe_def failing_child_def Popen4_def merged_text_def read_loop.simps
      poll_def read_def wait_def)


lemma accepts_gif: "accepts_input (gif_child input)"
  by (simp add: gif_child_def)

lemma accepts_failing: "accepts_input (failing_child input)"
  by (simp add: failing_child_def)


lemma render_working: "render working_env empty_graph ''gif'' = Inr (Some ''GIF89a'', [])"
  by (simp add: render_launched[OF launched_working accepts_gif] render_pipe_gif)
     (simp add: working_env_def)

lemma render_full_disk: "render full_disk_env empty_graph ''gif'' = Inr (Some ''GIF89a'', [])"
  by (simp add: render_launched[OF launched_full_disk accepts_gif] render_pipe_gif)
     (simp add: full_disk_env_def working_env_def)

lemma render_read_only: "render read_only_env empty_graph ''gif'' = Inr (Some ''GIF89a'', [])"
  by (simp add: render_launched[OF launched_read_only accepts_gif] render_pipe_gif)
     (simp add: read_only_env_def working_env_def)

lemma render_failing:
  "render failing_env empty_graph ''gif'' =
     Inr (None, [''Unable to render Graphviz dot graph:'' @ [CHR 0x0A]])"
  by (simp add: render_launched[OF launched_failing accepts_failing] render_pipe_failing)
     (simp add: failing_env_def)


lemma render_bare: "render bare_env empty_graph ''gif'' = Inl ImportError"
  by (simp add: render_def bare_env_def working_env_def)




text \<open>
  Claim C9 fails as stated: the handle is not closed on every exit path. When rendering
  succeeds and the file is opened but \<^verbatim>\<open>out.write(s)\<close> raises, the error leaves \<^verbatim>\<open>write\<close> before
  \<^verbatim>\<open>out.close()\<close> is reached.
\<close>

theorem write_leaves_handle_open:
  "DotGraph_write full_disk_env empty_graph ''g.gif'' ''gif'' no_files =
     (Inl IOError, \<lparr>files = [(''g.gif'', [])], open_files = [''g.gif'']\<rparr>, [])"
  by (simp add: DotGraph_write_def render_full_disk)
     (simp add: full_disk_env_def working_env_def no_files_def)

text \<open>
  Claim C9, amended. \<^verbatim>\<open>write\<close> calls \<^verbatim>\<open>render\<close>. An error of \<^verbatim>\<open>render\<close> is passed on. When rendering
  fails (\<^verbatim>\<open>None\<close>) it returns \<^verbatim>\<open>False\<close> and leaves the file system as it was. When rendering
  succeeds it opens the path for writing, writes the result, closes the handle and
  returns \<^verbatim>\<open>True\<close>; if the file cannot be opened the error is raised and nothing has changed;
  if the write fails the error is raised and the handle stays open.
\<close>

theorem write_result:
  "(render env g language = Inl e \<longrightarrow>
      DotGraph_write env g filename language fs = (Inl e, fs, [])) \<and>
   (render env g language = Inr (None, warnings) \<longrightarrow>
      DotGraph_write env g filename language fs = (Inr False, fs, warnings)) \<and>
   (render env g language = Inr (Some s, warnings) \<and> \<not> can_open env filename \<longrightarrow>
      DotGraph_write env g filename language fs = (Inl IOError, fs, warnings)) \<and>
   (render env g language = Inr (Some s, warnings) \<and> can_open env filename \<and>
      \<not> can_write env filename s \<longrightarrow>
      DotGraph_write env g filename language fs =
        (Inl IOError,
         fs\<lparr>files := AList.update filename [] (files fs), open_files := filename # open_files fs\<rparr>,
         warnings)) \<and>
   (render env g language = Inr (Some s, warnings) \<and> can_open env filename \<and>
      can_write env filename s \<longrightarrow>
      DotGraph_write env g filename language fs =
        (Inr True, fs\<lparr>files := AList.update filename s (files fs)\<rparr>, warnings))"
  by (simp add: DotGraph_write_def Let_def)

theorem write_result_witness:
  "DotGraph_write working_env empty_graph ''g.gif'' ''gif'' no_files =
     (Inr True, \<lparr>files = [(''g.gif'', ''GIF89a'')], open_files = []\<rparr>, []) \<and>
   DotGraph_write failing_env empty_graph ''g.gif'' ''gif'' no_files =
     (Inr False, no_files, [''Unable to render Graphviz dot graph:'' @ [CHR 0x0A]]) \<and>
   DotGraph_write full_disk_env empty_graph ''g.gif'' ''gif'' no_files =
     (Inl IOError, \<lparr>files = [(''g.gif'', [])], open_files = [''g.gif'']\<rparr>, []) \<and>
   DotGraph_write read_only_env empty_graph ''g.gif'' ''gif'' no_files = (Inl IOError, no_files, []) \<and>
   DotGraph_write bare_env empty_graph ''g.gif'' ''gif'' no_files = (Inl ImportError, no_files, [])"
proof -
  have c: "can_open working_env ''g.gif''" "can_write working_env ''g.gif'' ''GIF89a''"
    "can_open full_disk_env ''g.gif''" "\<not> can_write full_disk_env ''g.gif'' ''GIF89a''"
    "\<not> can_open read_only_env ''g.gif''"
    by (simp_all add: working_env_def full_disk_env_def read_only_env_def)
  from write_result[where env = working_env and g = empty_graph and language = "''gif''"
      and filename = "''g.gif''" and fs = no_files and s = "''GIF89a''" and warnings = "[]"]
    render_working c
  have 1: "DotGraph_write working_env empty_graph ''g.gif'' ''gif'' no_files =
     (Inr True, no_files\<lparr>files := AList.update ''g.gif'' ''GIF89a'' (files no_files)\<rparr>, [])"
    by blast
  from write_result[where env = failing_env and g = empty_graph and language = "''gif''"
      and filename = "''g.gif''" and fs = no_files
      and warnings = "[''Unable to render Graphviz dot graph:'' @ [CHR 0x0A]]"] render_failing
  have 2: "DotGraph_write failing_env empty_graph ''g.gif'' ''gif'' no_files =
     (Inr False, no_files, [''Unable to render Graphviz dot graph:'' @ [CHR 0x0A]])"
    by blast
  from write_result[where env = full_disk_env and g = empty_graph and language = "''gif''"
      and filename = "''g.gif''" and fs = no_files and s = "''GIF89a''" and warnings = "[]"]
    render_full_disk c
  have 3: "DotGraph_write full_disk_env empty_graph ''g.gif'' ''gif'' no_files =
     (Inl IOError, no_files\<lparr>files := AList.update ''g.gif'' [] (files no_files),
        open_files := ''g.gif'' # open_files no_files\<rparr>, [])"
    by blast
  from write_result[where env = read_only_env and g = empty_graph and language = "''gif''"
      and filename = "''g.gif''" and fs = no_files and s = "''GIF89a''" and warnings = "[]"]
    render_read_only c
  have 4: "DotGraph_write read_only_env empty_graph ''g.gif'' ''gif'' no_files =
     (Inl IOError, no_files, [])"
    by blast
  from write_result[where env = bare_env and g = empty_graph and language = "''gif''"
      and filename = "''g.gif''" and fs = no_files and e = ImportError] render_bare
  have 5: "DotGraph_write bare_env empty_graph ''g.gif'' ''gif'' no_files =
     (Inl ImportError, no_files, [])"
    by blast
  from 1 2 3 4 5 show ?thesis by (simp add: no_files_def)
qed

section \<open>The documented objects and the builders\<close>

text \<open>
  The builders walk objects of the classes of \<^verbatim>\<open>epydoc.apidoc\<close>, which are not part of these
  sources. Such an object is compared and hashed by identity, so it is modelled by a
  number that stands for the object; the model of the API gives, for each object, the
  attributes the builders read: \<^verbatim>\<open>canonical_name\<close>, \<^verbatim>\<open>submodules\<close>, \<^verbatim>\<open>subclasses\<close>, \<^verbatim>\<open>imports\<close>, and
  whether it is an instance of \<^verbatim>\<open>ModuleDoc\<close>. A dotted name is the list of its identifiers,
  ordered as Python orders tuples of strings. \<^verbatim>\<open>docindex.get_valdoc\<close> is a partial function
  from dotted names to objects, and the keyword arguments \<^verbatim>\<open>options\<close> are a dictionary of
  strings.
\<close>

type_synonym val_doc = nat

type_synonym dotted_name = "string list"

record api_model =
  canonical_name :: "val_doc \<Rightarrow> dotted_name"
  submodules :: "val_doc \<Rightarrow> val_doc list"
  subclasses :: "val_doc \<Rightarrow> val_doc list"
  imports' :: "val_doc \<Rightarrow> dotted_name list"
  is_ModuleDoc :: "val_doc \<Rightarrow> bool"

type_synonym doc_index = "dotted_name \<Rightarrow> val_doc option"

type_synonym options = "(string \<times> string) list"

text \<open>
  Modelled from the spec: the string form of a \<^verbatim>\<open>DottedName\<close>, whose class is not in these
  sources: the identifiers joined by dots (the node labels equal the canonical dotted
  names).
\<close>

definition str_dotted :: "dotted_name \<Rightarrow> string" where
  "str_dotted name = join ''.'' name"

text \<open>
  A \<^verbatim>\<open>sets.Set\<close> is a list without duplicates; its order stands for the iteration order of
  the set, which Python leaves open. \<^verbatim>\<open>Set(xs)\<close>, \<^verbatim>\<open>s.add(x)\<close> and \<^verbatim>\<open>s.update(xs)\<close>.
\<close>

definition Set_of :: "'a list \<Rightarrow> 'a list" where
  "Set_of xs = remdups xs"

definition Set_add :: "'a list \<Rightarrow> 'a \<Rightarrow> 'a list" where
  "Set_add S x = (if x \<in> set S then S else S @ [x])"

definition Set_update :: "'a list \<Rightarrow> 'a list \<Rightarrow> 'a list" where
  "Set_update S xs = fold (\<lambda>x S'. Set_add S' x) xs S"

text \<open>
  \<^verbatim>\<open>DotGraphNode.__init__\<close> (lines 210 to 214), which takes the next identifier of the
  process, and \<^verbatim>\<open>DotGraphEdge.__init__\<close> (lines 226 to 234).
\<close>

definition DotGraphNode_init ::
  "string option \<Rightarrow> attrib_dict \<Rightarrow> process_state \<Rightarrow> dot_node \<times> process_state" where
  "DotGraphNode_init label attribs' st =
    (\<lparr>attribs = (case label of None \<Rightarrow> attribs' | Some l \<Rightarrow> AList.update ''label'' l attribs'),
      node_id = next_id st\<rparr>,
     st\<lparr>next_id := next_id st + 1\<rparr>)"

definition DotGraphEdge_init ::
  "dot_node \<Rightarrow> dot_node \<Rightarrow> string option \<Rightarrow> attrib_dict \<Rightarrow> dot_edge" where
  "DotGraphEdge_init start' end' label attribs' =
    \<lparr>attribs = (case label of None \<Rightarrow> attribs' | Some l \<Rightarrow> AList.update ''label'' l attribs'),
     start = node_id start', end_node = node_id end'\<rparr>"

text \<open>
  \<^verbatim>\<open>add_valdoc_nodes\<close> (lines 338 to 350): the objects sorted by canonical name (Python's sort
  is stable, as \<^const>\<open>sort_key\<close> is), one new node each, appended to the graph and stored in
  the dictionary \<^verbatim>\<open>nodes\<close> under the object.
\<close>

type_synonym node_dict = "(val_doc \<times> dot_node) list"

fun add_valdoc_nodes_loop ::
  "api_model \<Rightarrow> linker \<Rightarrow> val_doc option \<Rightarrow> val_doc list \<Rightarrow> dot_graph \<Rightarrow> node_dict
    \<Rightarrow> process_state \<Rightarrow> dot_graph \<times> node_dict \<times> process_state" where
  "add_valdoc_nodes_loop M linker' context [] graph nodes' st = (graph, nodes', st)"
| "add_valdoc_nodes_loop M linker' context (val_doc # rest) graph nodes' st =
    (let (node0, st1) = DotGraphNode_init (Some (str_dotted (canonical_name M val_doc))) [] st;
         node =
           (if Some val_doc = context
            then node0\<lparr>attribs :=
                   AList.update ''style'' ''filled''
                     (AList.update ''fontcolor'' ''white''
                       (AList.update ''fillcolor'' ''black'' (attribs node0)))\<rparr>
            else (case linker' (Doc val_doc) of
                    None \<Rightarrow> node0
                  | Some url \<Rightarrow>
                      if url \<noteq> [] then node0\<lparr>attribs := AList.update ''href'' url (attribs node0)\<rparr>
                      else node0))
     in add_valdoc_nodes_loop M linker' context rest
          (graph\<lparr>nodes := nodes graph @ [node]\<rparr>) (AList.update val_doc node nodes') st1)"

definition add_valdoc_nodes ::
  "api_model \<Rightarrow> dot_graph \<Rightarrow> val_doc list \<Rightarrow> linker \<Rightarrow> val_doc option \<Rightarrow> process_state
    \<Rightarrow> dot_graph \<times> node_dict \<times> process_state" where
  "add_valdoc_nodes M graph val_docs linker' context st =
    add_valdoc_nodes_loop M linker' context (sort_key (canonical_name M) val_docs) graph [] st"

text \<open>
  The traversal of lines 263 to 267 and of lines 293 to 297:
  \<^verbatim>\<open>for module in queue: queue.extend(module.submodules); modules.update(module.submodules)\<close>.
  The loop reads the list by index while it grows: every child is appended to the queue,
  whether it was seen before or not. It may run forever, so the result is an option.
\<close>

partial_function (option) collect ::
  "(val_doc \<Rightarrow> val_doc list) \<Rightarrow> nat \<Rightarrow> val_doc list \<Rightarrow> val_doc list
    \<Rightarrow> (val_doc list \<times> val_doc list) option" where
  "collect children i queue seen =
    (if i < length queue
     then collect children (i + 1) (queue @ children (queue ! i))
            (Set_update seen (children (queue ! i)))
     else Some (queue, seen))"

declare collect.simps [code]

text \<open>
  The edge loops of lines 273 to 275 and 303 to 305. \<^verbatim>\<open>nodes[module]\<close> raises \<^verbatim>\<open>KeyError\<close> for a
  missing key.
\<close>

fun child_edges :: "node_dict \<Rightarrow> val_doc \<Rightarrow> val_doc list \<Rightarrow> py_error + dot_edge list" where
  "child_edges nodes' parent [] = Inr []"
| "child_edges nodes' parent (child # rest) =
    (case map_of nodes' parent of
       None \<Rightarrow> Inl KeyError
     | Some p \<Rightarrow>
        (case map_of nodes' child of
           None \<Rightarrow> Inl KeyError
         | Some c \<Rightarrow>
            (case child_edges nodes' parent rest of
               Inl e \<Rightarrow> Inl e
             | Inr es \<Rightarrow> Inr (DotGraphEdge_init p c None [] # es))))"

fun tree_edges ::
  "(val_doc \<Rightarrow> val_doc list) \<Rightarrow> node_dict \<Rightarrow> val_doc list \<Rightarrow> py_error + dot_edge list" where
  "tree_edges children nodes' [] = Inr []"
| "tree_edges children nodes' (parent # rest) =
    (case child_edges nodes' parent (children parent) of
       Inl e \<Rightarrow> Inl e
     | Inr es \<Rightarrow>
        (case tree_edges children nodes' rest of
           Inl e \<Rightarrow> Inl e
         | Inr es' \<Rightarrow> Inr (es @ es')))"

text \<open>\<^verbatim>\<open>package_tree_graph\<close> (lines 249 to 277) and \<^verbatim>\<open>class_tree_graph\<close> (lines 279 to 307).\<close>

definition package_tree_graph ::
  "api_model \<Rightarrow> val_doc list \<Rightarrow> linker \<Rightarrow> val_doc option \<Rightarrow> options \<Rightarrow> process_state
    \<Rightarrow> (py_error + dot_graph \<times> process_state) option" where
  "package_tree_graph M packages linker' context options' st =
    (let (graph0, st1) =
           DotGraph_init ''Package Tree'' []
             (Some [(''shape'', ''box''), (''width'', ''0''), (''height'', ''0'')])
             (Some [(''sametail'', ''True'')]) st;
         dir = (case map_of options' ''dir'' of None \<Rightarrow> ''LR'' | Some d \<Rightarrow> d);
         graph1 = (if dir \<noteq> ''TB''
                   then graph0\<lparr>body := body graph0 @ ''rankdir='' @ dir @ [CHR 0x0A]\<rparr>
                   else graph0)
     in case collect (submodules M) 0 packages (Set_of packages) of
          None \<Rightarrow> None
        | Some (queue, modules) \<Rightarrow>
           (let (graph2, nodes', st2) = add_valdoc_nodes M graph1 modules linker' context st1
            in case tree_edges (submodules M) nodes' modules of
                 Inl e \<Rightarrow> Some (Inl e)
               | Inr es \<Rightarrow> Some (Inr (graph2\<lparr>edges := edges graph2 @ es\<rparr>, st2))))"

definition class_tree_graph ::
  "api_model \<Rightarrow> val_doc list \<Rightarrow> linker \<Rightarrow> val_doc option \<Rightarrow> options \<Rightarrow> process_state
    \<Rightarrow> (py_error + dot_graph \<times> process_state) option" where
  "class_tree_graph M bases linker' context options' st =
    (let (graph0, st1) =
           DotGraph_init ''Class Hierarchy'' []
             (Some [(''shape'', ''box''), (''width'', ''0''), (''height'', ''0'')])
             (Some [(''sametail'', ''True'')]) st;
         dir = (case map_of options' ''dir'' of None \<Rightarrow> ''LR'' | Some d \<Rightarrow> d);
         graph1 = (if dir \<noteq> ''TB''
                   then graph0\<lparr>body := body graph0 @ ''rankdir='' @ dir @ [CHR 0x0A]\<rparr>
                   else graph0)
     in case collect (subclasses M) 0 bases (Set_of bases) of
          None \<Rightarrow> None
        | Some (queue, classes) \<Rightarrow>
           (let (graph2, nodes', st2) = add_valdoc_nodes M graph1 classes linker' context st1
            in case tree_edges (subclasses M) nodes' classes of
                 Inl e \<Rightarrow> Some (Inl e)
               | Inr es \<Rightarrow> Some (Inr (graph2\<lparr>edges := edges graph2 @ es\<rparr>, st2))))"

text \<open>
  The loop of lines 325 to 329, \<^verbatim>\<open>for i in range(len(var_name), 0, -1)\<close>: the prefixes of the
  imported name from the longest to the shortest, up to the first that the index maps
  to a module. The last argument is the length of the longest prefix still to try.
\<close>

fun resolve_import :: "api_model \<Rightarrow> doc_index \<Rightarrow> dotted_name \<Rightarrow> nat \<Rightarrow> val_doc option" where
  "resolve_import M docindex var_name 0 = None"
| "resolve_import M docindex var_name (Suc i) =
    (case docindex (take (Suc i) var_name) of
       None \<Rightarrow> resolve_import M docindex var_name i
     | Some val_doc \<Rightarrow>
        if is_ModuleDoc M val_doc then Some val_doc
        else resolve_import M docindex var_name i)"

text \<open>
  The loops of lines 323 to 329 that fill the set \<^verbatim>\<open>edges\<close>, the loop of lines 331 to 333 that
  makes an edge of every pair whose two objects have a node, and \<^verbatim>\<open>import_graph\<close> (lines 309
  to 335).
\<close>

fun import_edges_of ::
  "api_model \<Rightarrow> doc_index \<Rightarrow> val_doc \<Rightarrow> dotted_name list \<Rightarrow> (val_doc \<times> val_doc) list
    \<Rightarrow> (val_doc \<times> val_doc) list" where
  "import_edges_of M docindex dst [] edges' = edges'"
| "import_edges_of M docindex dst (var_name # rest) edges' =
    import_edges_of M docindex dst rest
      (case resolve_import M docindex var_name (length var_name) of
         None \<Rightarrow> edges'
       | Some val_doc \<Rightarrow> Set_add edges' (val_doc, dst))"

fun import_edges ::
  "api_model \<Rightarrow> doc_index \<Rightarrow> val_doc list \<Rightarrow> (val_doc \<times> val_doc) list
    \<Rightarrow> (val_doc \<times> val_doc) list" where
  "import_edges M docindex [] edges' = edges'"
| "import_edges M docindex (dst # rest) edges' =
    import_edges M docindex rest (import_edges_of M docindex dst (imports' M dst) edges')"

fun append_edges :: "node_dict \<Rightarrow> (val_doc \<times> val_doc) list \<Rightarrow> dot_edge list" where
  "append_edges nodes' [] = []"
| "append_edges nodes' ((src, dst) # rest) =
    (case (map_of nodes' src, map_of nodes' dst) of
       (Some s, Some d) \<Rightarrow> DotGraphEdge_init s d None [] # append_edges nodes' rest
     | _ \<Rightarrow> append_edges nodes' rest)"

definition import_graph ::
  "api_model \<Rightarrow> val_doc list \<Rightarrow> doc_index \<Rightarrow> linker \<Rightarrow> val_doc option \<Rightarrow> options
    \<Rightarrow> process_state \<Rightarrow> dot_graph \<times> process_state" where
  "import_graph M modules docindex linker' context options' st =
    (let (graph0, st1) =
           DotGraph_init ''Import Graph'' []
             (Some [(''shape'', ''box''), (''width'', ''0''), (''height'', ''0'')])
             (Some [(''sametail'', ''True'')]) st;
         dir = (case map_of options' ''dir'' of None \<Rightarrow> ''RL'' | Some d \<Rightarrow> d);
         graph1 = (if dir \<noteq> ''TB''
                   then graph0\<lparr>body := body graph0 @ ''rankdir='' @ dir @ [CHR 0x0A]\<rparr>
                   else graph0);
         (graph2, nodes', st2) = add_valdoc_nodes M graph1 modules linker' context st1;
         edges' = import_edges M docindex modules []
     in (graph2\<lparr>edges := edges graph2 @ append_edges nodes' edges'\<rparr>, st2))"

text \<open>Example: the package \<^verbatim>\<open>A\<close> with the submodules \<^verbatim>\<open>A.C\<close> and \<^verbatim>\<open>A.B\<close>.\<close>

definition tree_model :: api_model where
  "tree_model =
    \<lparr>canonical_name = (\<lambda>d. if d = 0 then [''A''] else if d = 1 then [''A'', ''C''] else [''A'', ''B'']),
     submodules = (\<lambda>d. if d = 0 then [1, 2] else []),
     subclasses = (\<lambda>d. []),
     imports' = (\<lambda>d. []),
     is_ModuleDoc = (\<lambda>d. True)\<rparr>"

section \<open>The traversal of the tree builders\<close>

text \<open>
  The objects reachable from the roots over the parent-child relation, and the relation
  being well-founded: no cycle and no infinite descent.
\<close>

definition reachable :: "(val_doc \<Rightarrow> val_doc list) \<Rightarrow> val_doc list \<Rightarrow> val_doc set" where
  "reachable children roots = {(p, c). c \<in> set (children p)}\<^sup>* `` set roots"

definition acyclic_children :: "(val_doc \<Rightarrow> val_doc list) \<Rightarrow> bool" where
  "acyclic_children children \<longleftrightarrow> wf {(c, p). c \<in> set (children p)}"

lemma set_Set_add: "set (Set_add S x) = insert x (set S)"
  by (auto simp: Set_add_def)

lemma distinct_Set_add: "distinct S \<Longrightarrow> distinct (Set_add S x)"
  by (simp add: Set_add_def)

lemma set_Set_update: "set (Set_update S xs) = set S \<union> set xs"
  unfolding Set_update_def by (induction xs arbitrary: S) (auto simp: set_Set_add)

lemma distinct_Set_update: "distinct S \<Longrightarrow> distinct (Set_update S xs)"
  unfolding Set_update_def by (induction xs arbitrary: S) (auto simp: distinct_Set_add)

lemma set_Set_of: "set (Set_of xs) = set xs"
  by (simp add: Set_of_def)

lemma distinct_Set_of: "distinct (Set_of xs)"
  by (simp add: Set_of_def)

text \<open>The invariant of the traversal loop.\<close>

definition collect_inv ::
  "(val_doc \<Rightarrow> val_doc list) \<Rightarrow> val_doc list \<Rightarrow> nat \<Rightarrow> val_doc list \<Rightarrow> val_doc list \<Rightarrow> bool" where
  "collect_inv children roots i queue seen \<longleftrightarrow>
     set seen = set queue \<and> distinct seen \<and> set roots \<subseteq> set queue \<and>
     set queue \<subseteq> reachable children roots \<and> i \<le> length queue \<and>
     (\<forall>j<i. set (children (queue ! j)) \<subseteq> set queue)"

lemma reachable_child:
  "x \<in> reachable children roots \<Longrightarrow> c \<in> set (children x) \<Longrightarrow> c \<in> reachable children roots"
  unfolding reachable_def by (auto intro: rtrancl_into_rtrancl)

lemma collect_inv_step:
  assumes inv: "collect_inv children roots i queue seen" and i: "i < length queue"
  shows "collect_inv children roots (i + 1) (queue @ children (queue ! i))
           (Set_update seen (children (queue ! i)))"
proof -
  let ?x = "queue ! i"
  from inv have s: "set seen = set queue" and d: "distinct seen" and r: "set roots \<subseteq> set queue"
    and q: "set queue \<subseteq> reachable children roots"
    and c: "\<forall>j<i. set (children (queue ! j)) \<subseteq> set queue"
    by (simp_all add: collect_inv_def)
  from i q have x: "?x \<in> reachable children roots" by (auto simp: subset_iff)
  have "set (queue @ children ?x) \<subseteq> reachable children roots"
    using q x reachable_child[of ?x children roots] by auto
  moreover have "\<forall>j<i + 1. set (children ((queue @ children ?x) ! j)) \<subseteq> set (queue @ children ?x)"
  proof (intro allI impI)
    fix j assume j: "j < i + 1"
    with i have jl: "j < length queue" by simp
    show "set (children ((queue @ children ?x) ! j)) \<subseteq> set (queue @ children ?x)"
    proof (cases "j = i")
      case True
      with jl show ?thesis by (simp add: nth_append)
    next
      case False
      with j have "j < i" by simp
      with c jl show ?thesis by (auto simp: nth_append)
    qed
  qed
  ultimately show ?thesis
    using s d r i by (simp add: collect_inv_def set_Set_update distinct_Set_update) blast
qed

lemma collect_terminates:
  assumes acyclic: "acyclic_children children"
  shows "collect_inv children roots i queue seen \<Longrightarrow>
         \<exists>queue' seen'. collect children i queue seen = Some (queue', seen') \<and>
            collect_inv children roots (length queue') queue' seen'"
proof -
  from acyclic have w: "wf (mult1 {(c, p). c \<in> set (children p)})"
    unfolding acyclic_children_def by (rule wf_mult1)
  show "collect_inv children roots i queue seen \<Longrightarrow>
         \<exists>queue' seen'. collect children i queue seen = Some (queue', seen') \<and>
            collect_inv children roots (length queue') queue' seen'"
    using w
  proof (induction pending \<equiv> "mset (drop i queue)" arbitrary: i queue seen rule: wf_induct_rule)
    case less
    show ?case
    proof (cases "i < length queue")
      case False
      with less.prems have "i = length queue" by (simp add: collect_inv_def)
      moreover from False have "collect children i queue seen = Some (queue, seen)"
        by (subst collect.simps) simp
      ultimately show ?thesis using less.prems by blast
    next
      case True
      let ?x = "queue ! i"
      let ?queue = "queue @ children ?x"
      let ?seen = "Set_update seen (children ?x)"
      have d: "drop i queue = ?x # drop (i + 1) queue"
        using True by (simp add: Cons_nth_drop_Suc)
      have pend: "mset (drop (i + 1) ?queue) = mset (drop (i + 1) queue) + mset (children ?x)"
        using True by simp
      have dec: "(mset (drop (i + 1) ?queue), mset (drop i queue)) \<in> mult1 {(c, p). c \<in> set (children p)}"
        unfolding pend d by (rule mult1I[where a = ?x and ?M0.0 = "mset (drop (i + 1) queue)"]) auto
      have "collect_inv children roots (i + 1) ?queue ?seen"
        using less.prems True by (rule collect_inv_step)
      with less.hyps[OF dec] obtain queue' seen' where
        "collect children (i + 1) ?queue ?seen = Some (queue', seen')"
        "collect_inv children roots (length queue') queue' seen'"
        by blast
      moreover from True have "collect children i queue seen = collect children (i + 1) ?queue ?seen"
        by (subst collect.simps) simp
      ultimately show ?thesis by simp
    qed
  qed
qed

lemma collect_inv_final:
  assumes "collect_inv children roots (length queue) queue seen"
  shows "set seen = reachable children roots \<and> distinct seen"
proof -
  from assms have s: "set seen = set queue" and d: "distinct seen" and r: "set roots \<subseteq> set queue"
    and q: "set queue \<subseteq> reachable children roots"
    and c: "\<forall>j<length queue. set (children (queue ! j)) \<subseteq> set queue"
    by (simp_all add: collect_inv_def)
  have closed: "ch \<in> set queue" if "p \<in> set queue" and "ch \<in> set (children p)" for p ch
  proof -
    from that(1) obtain j where "j < length queue" "queue ! j = p"
      by (auto simp: in_set_conv_nth)
    with c that(2) show ?thesis by blast
  qed
  have "y \<in> set queue" if "(x, y) \<in> {(p, c). c \<in> set (children p)}\<^sup>*" and "x \<in> set queue" for x y
    using that by (induction rule: rtrancl_induct) (auto intro: closed)
  with r have "reachable children roots \<subseteq> set queue"
    unfolding reachable_def by blast
  with q s d show ?thesis by auto
qed

lemma collect_roots:
  assumes "acyclic_children children"
  shows "\<exists>queue seen. collect children 0 roots (Set_of roots) = Some (queue, seen) \<and>
           set seen = reachable children roots \<and> distinct seen"
proof -
  have "collect_inv children roots 0 roots (Set_of roots)"
    by (auto simp: collect_inv_def set_Set_of distinct_Set_of reachable_def)
  from collect_terminates[OF assms this] collect_inv_final show ?thesis by blast
qed

section \<open>The nodes of the builders\<close>

text \<open>
  The node that \<^verbatim>\<open>add_valdoc_nodes\<close> makes for an object, the label of a node, and the invariant
  of the node dictionary: every node of the graph has an identifier below the next one,
  the identifiers differ, every node of the dictionary is in the graph and carries the
  name of its object, and different objects have nodes with different identifiers.
\<close>

definition valdoc_node :: "api_model \<Rightarrow> linker \<Rightarrow> val_doc option \<Rightarrow> val_doc \<Rightarrow> nat \<Rightarrow> dot_node" where
  "valdoc_node M l ctx v i =
    (let node0 = \<lparr>attribs = [(''label'', str_dotted (canonical_name M v))], node_id = i\<rparr>
     in if Some v = ctx
        then node0\<lparr>attribs :=
               AList.update ''style'' ''filled''
                 (AList.update ''fontcolor'' ''white''
                   (AList.update ''fillcolor'' ''black'' (attribs node0)))\<rparr>
        else (case l (Doc v) of
                None \<Rightarrow> node0
              | Some url \<Rightarrow>
                  if url \<noteq> [] then node0\<lparr>attribs := AList.update ''href'' url (attribs node0)\<rparr>
                  else node0))"

definition label_of :: "dot_node \<Rightarrow> string option" where
  "label_of n = map_of (attribs n) ''label''"

definition node_inv :: "api_model \<Rightarrow> dot_graph \<Rightarrow> node_dict \<Rightarrow> process_state \<Rightarrow> bool" where
  "node_inv M graph nd st \<longleftrightarrow>
     (\<forall>n \<in> set (nodes graph). node_id n < next_id st) \<and>
     distinct (map node_id (nodes graph)) \<and>
     (\<forall>k n. map_of nd k = Some n \<longrightarrow>
        n \<in> set (nodes graph) \<and> label_of n = Some (str_dotted (canonical_name M k))) \<and>
     (\<forall>k k' n n'. map_of nd k = Some n \<longrightarrow> map_of nd k' = Some n' \<longrightarrow>
        node_id n = node_id n' \<longrightarrow> k = k')"

lemma valdoc_node_id: "node_id (valdoc_node M l ctx v i) = i"
  by (simp add: valdoc_node_def Let_def split: option.splits)

lemma valdoc_node_label:
  "label_of (valdoc_node M l ctx v i) = Some (str_dotted (canonical_name M v))"
  by (simp add: valdoc_node_def label_of_def Let_def split: option.splits)

lemma add_valdoc_nodes_loop_Cons:
  "add_valdoc_nodes_loop M l ctx (v # rest) graph nd st =
     add_valdoc_nodes_loop M l ctx rest
       (graph\<lparr>nodes := nodes graph @ [valdoc_node M l ctx v (next_id st)]\<rparr>)
       (AList.update v (valdoc_node M l ctx v (next_id st)) nd)
       (st\<lparr>next_id := next_id st + 1\<rparr>)"
  by (simp add: DotGraphNode_init_def valdoc_node_def Let_def split: option.splits)

lemma node_inv_step:
  assumes "node_inv M graph nd st"
  shows "node_inv M (graph\<lparr>nodes := nodes graph @ [valdoc_node M l ctx v (next_id st)]\<rparr>)
           (AList.update v (valdoc_node M l ctx v (next_id st)) nd)
           (st\<lparr>next_id := next_id st + 1\<rparr>)"
proof -
  let ?n = "valdoc_node M l ctx v (next_id st)"
  from assms have a: "\<forall>n \<in> set (nodes graph). node_id n < next_id st"
    and b: "distinct (map node_id (nodes graph))"
    and c: "\<And>k n. map_of nd k = Some n \<Longrightarrow>
        n \<in> set (nodes graph) \<and> label_of n = Some (str_dotted (canonical_name M k))"
    and d: "\<And>k k' n n'. map_of nd k = Some n \<Longrightarrow> map_of nd k' = Some n' \<Longrightarrow>
        node_id n = node_id n' \<Longrightarrow> k = k'"
    unfolding node_inv_def by blast+
  have old_lt: "node_id n < next_id st" if "map_of nd k = Some n" for k n
    using c[OF that] a by blast
  have 1: "\<forall>n \<in> set (nodes graph @ [?n]). node_id n < next_id st + 1"
    using a by (auto simp: valdoc_node_id less_Suc_eq)
  have 2: "distinct (map node_id (nodes graph @ [?n]))"
    using a b by (auto simp: valdoc_node_id)
  have 3: "n \<in> set (nodes graph @ [?n]) \<and> label_of n = Some (str_dotted (canonical_name M k))"
    if "map_of (AList.update v ?n nd) k = Some n" for k n
    using that c[of k n] by (auto simp: update_conv' valdoc_node_label split: if_splits)
  have 4: "k = k'"
    if "map_of (AList.update v ?n nd) k = Some n" "map_of (AList.update v ?n nd) k' = Some n'"
      "node_id n = node_id n'" for k k' n n'
  proof (cases "k = v")
    case True
    note kv = this
    show ?thesis
    proof (cases "k' = v")
      case True
      with kv show ?thesis by simp
    next
      case False
      with that(2) have "map_of nd k' = Some n'" by (simp add: update_conv')
      from old_lt[OF this] have "node_id n' < next_id st" .
      moreover from that(1) kv have "n = ?n" by (simp add: update_conv')
      then have "node_id n = next_id st" by (simp add: valdoc_node_id)
      ultimately show ?thesis using that(3) by simp
    qed
  next
    case False
    with that(1) have k: "map_of nd k = Some n" by (simp add: update_conv')
    show ?thesis
    proof (cases "k' = v")
      case True
      with that(2) have "n' = ?n" by (simp add: update_conv')
      then have "node_id n' = next_id st" by (simp add: valdoc_node_id)
      with old_lt[OF k] that(3) show ?thesis by simp
    next
      case False
      with that(2) have "map_of nd k' = Some n'" by (simp add: update_conv')
      from d[OF k this that(3)] show ?thesis .
    qed
  qed
  show ?thesis
    unfolding node_inv_def using 1 2 3 4 by simp
qed

lemma add_valdoc_nodes_loop_frame:
  "add_valdoc_nodes_loop M l ctx vs graph nd st = (graph', nd', st') \<Longrightarrow>
   body graph' = body graph \<and> edges graph' = edges graph \<and> uid graph' = uid graph \<and>
   title graph' = title graph \<and> uids st' = uids st"
proof (induction vs arbitrary: graph nd st)
  case Nil
  then show ?case by simp
next
  case (Cons v vs)
  from Cons.prems Cons.IH[of "graph\<lparr>nodes := nodes graph @ [valdoc_node M l ctx v (next_id st)]\<rparr>"
      "AList.update v (valdoc_node M l ctx v (next_id st)) nd" "st\<lparr>next_id := next_id st + 1\<rparr>"]
  show ?case by (simp only: add_valdoc_nodes_loop_Cons) simp
qed

lemma add_valdoc_nodes_loop_labels:
  "add_valdoc_nodes_loop M l ctx vs graph nd st = (graph', nd', st') \<Longrightarrow>
   map label_of (nodes graph') =
     map label_of (nodes graph) @ map (\<lambda>v. Some (str_dotted (canonical_name M v))) vs"
proof (induction vs arbitrary: graph nd st)
  case Nil
  then show ?case by simp
next
  case (Cons v vs)
  from Cons.prems Cons.IH[of "graph\<lparr>nodes := nodes graph @ [valdoc_node M l ctx v (next_id st)]\<rparr>"
      "AList.update v (valdoc_node M l ctx v (next_id st)) nd" "st\<lparr>next_id := next_id st + 1\<rparr>"]
  show ?case by (simp only: add_valdoc_nodes_loop_Cons) (simp add: valdoc_node_label)
qed

lemma add_valdoc_nodes_loop_dom:
  "add_valdoc_nodes_loop M l ctx vs graph nd st = (graph', nd', st') \<Longrightarrow>
   dom (map_of nd') = dom (map_of nd) \<union> set vs"
proof (induction vs arbitrary: graph nd st)
  case Nil
  then show ?case by simp
next
  case (Cons v vs)
  from Cons.prems Cons.IH[of "graph\<lparr>nodes := nodes graph @ [valdoc_node M l ctx v (next_id st)]\<rparr>"
      "AList.update v (valdoc_node M l ctx v (next_id st)) nd" "st\<lparr>next_id := next_id st + 1\<rparr>"]
  show ?case by (simp only: add_valdoc_nodes_loop_Cons) (auto simp: update_conv' split: if_splits)
qed

lemma add_valdoc_nodes_loop_inv:
  "add_valdoc_nodes_loop M l ctx vs graph nd st = (graph', nd', st') \<Longrightarrow>
   node_inv M graph nd st \<Longrightarrow> node_inv M graph' nd' st'"
proof (induction vs arbitrary: graph nd st)
  case Nil
  then show ?case by simp
next
  case (Cons v vs)
  from Cons.prems(1) have "add_valdoc_nodes_loop M l ctx vs
      (graph\<lparr>nodes := nodes graph @ [valdoc_node M l ctx v (next_id st)]\<rparr>)
      (AList.update v (valdoc_node M l ctx v (next_id st)) nd)
      (st\<lparr>next_id := next_id st + 1\<rparr>) = (graph', nd', st')"
    by (simp only: add_valdoc_nodes_loop_Cons)
  then show ?case using node_inv_step[OF Cons.prems(2)] by (rule Cons.IH)
qed

section \<open>The tree builders\<close>

text \<open>
  The text that the three builders add to the body (lines 259 and 260, 289 and 290, 315
  and 316), for the default direction of the builder; and the two tree builders as one
  function of the title and the child relation.
\<close>

definition rankdir_body :: "options \<Rightarrow> string \<Rightarrow> string" where
  "rankdir_body options' dflt =
    (let dir = (case map_of options' ''dir'' of None \<Rightarrow> dflt | Some d \<Rightarrow> d)
     in if dir \<noteq> ''TB'' then ''rankdir='' @ dir @ [CHR 0x0A] else [])"

definition tree_graph ::
  "string \<Rightarrow> (val_doc \<Rightarrow> val_doc list) \<Rightarrow> api_model \<Rightarrow> val_doc list \<Rightarrow> linker \<Rightarrow> val_doc option
    \<Rightarrow> options \<Rightarrow> process_state \<Rightarrow> (py_error + dot_graph \<times> process_state) option" where
  "tree_graph title' children M roots l ctx options' st =
    (let (graph0, st1) =
           DotGraph_init title' []
             (Some [(''shape'', ''box''), (''width'', ''0''), (''height'', ''0'')])
             (Some [(''sametail'', ''True'')]) st;
         graph1 = graph0\<lparr>body := rankdir_body options' ''LR''\<rparr>
     in case collect children 0 roots (Set_of roots) of
          None \<Rightarrow> None
        | Some (queue, seen) \<Rightarrow>
           (let (graph2, nodes', st2) = add_valdoc_nodes M graph1 seen l ctx st1
            in case tree_edges children nodes' seen of
                 Inl e \<Rightarrow> Some (Inl e)
               | Inr es \<Rightarrow> Some (Inr (graph2\<lparr>edges := edges graph2 @ es\<rparr>, st2))))"

lemma DotGraph_init_body: "body (fst (DotGraph_init t b nd ed st)) = b"
  by (simp add: DotGraph_init_def Let_def)

lemma DotGraph_init_nodes: "nodes (fst (DotGraph_init t b nd ed st)) = []"
  by (simp add: DotGraph_init_def Let_def)

lemma DotGraph_init_edges: "edges (fst (DotGraph_init t b nd ed st)) = []"
  by (simp add: DotGraph_init_def Let_def)

lemma package_tree_graph_eq:
  "package_tree_graph M packages l ctx options' st =
     tree_graph ''Package Tree'' (submodules M) M packages l ctx options' st"
proof -
  obtain graph0 st1 where i: "DotGraph_init ''Package Tree'' []
             (Some [(''shape'', ''box''), (''width'', ''0''), (''height'', ''0'')])
             (Some [(''sametail'', ''True'')]) st = (graph0, st1)"
    by (cases "DotGraph_init ''Package Tree'' []
             (Some [(''shape'', ''box''), (''width'', ''0''), (''height'', ''0'')])
             (Some [(''sametail'', ''True'')]) st") auto
  with DotGraph_init_body[of "''Package Tree''" "[]" _ _ st] have b: "body graph0 = []"
    by (metis fst_conv)
  have z: "graph0\<lparr>body := []\<rparr> = graph0"
    using b by (cases graph0) simp
  show ?thesis
    using b
    by (cases "(case map_of options' ''dir'' of None \<Rightarrow> ''LR'' | Some d \<Rightarrow> d) = ''TB''")
       (simp_all add: package_tree_graph_def tree_graph_def i Let_def rankdir_body_def z split: option.splits)
qed

lemma class_tree_graph_eq:
  "class_tree_graph M bases l ctx options' st =
     tree_graph ''Class Hierarchy'' (subclasses M) M bases l ctx options' st"
proof -
  obtain graph0 st1 where i: "DotGraph_init ''Class Hierarchy'' []
             (Some [(''shape'', ''box''), (''width'', ''0''), (''height'', ''0'')])
             (Some [(''sametail'', ''True'')]) st = (graph0, st1)"
    by (cases "DotGraph_init ''Class Hierarchy'' []
             (Some [(''shape'', ''box''), (''width'', ''0''), (''height'', ''0'')])
             (Some [(''sametail'', ''True'')]) st") auto
  with DotGraph_init_body[of "''Class Hierarchy''" "[]" _ _ st] have b: "body graph0 = []"
    by (metis fst_conv)
  have z: "graph0\<lparr>body := []\<rparr> = graph0"
    using b by (cases graph0) simp
  show ?thesis
    using b
    by (cases "(case map_of options' ''dir'' of None \<Rightarrow> ''LR'' | Some d \<Rightarrow> d) = ''TB''")
       (simp_all add: class_tree_graph_def tree_graph_def i Let_def rankdir_body_def z split: option.splits)
qed

lemma child_edges_ok:
  "parent \<in> dom (map_of nd) \<Longrightarrow> set cs \<subseteq> dom (map_of nd) \<Longrightarrow> \<exists>es. child_edges nd parent cs = Inr es"
  by (induction cs) auto

lemma tree_edges_ok:
  "set ps \<subseteq> dom (map_of nd) \<Longrightarrow> \<forall>p \<in> set ps. set (children p) \<subseteq> dom (map_of nd) \<Longrightarrow>
   \<exists>es. tree_edges children nd ps = Inr es"
proof (induction ps)
  case Nil
  show ?case by simp
next
  case (Cons p ps)
  from Cons.prems child_edges_ok[of p nd "children p"]
  obtain es where "child_edges nd p (children p) = Inr es" by auto
  moreover from Cons obtain es' where "tree_edges children nd ps = Inr es'" by auto
  ultimately show ?case by simp
qed

lemma tree_graph_body:
  assumes "tree_graph title' children M roots l ctx options' st = Some (Inr (g, st'))"
  shows "body g = rankdir_body options' ''LR''"
proof -
  obtain graph0 st1 where i: "DotGraph_init title' []
             (Some [(''shape'', ''box''), (''width'', ''0''), (''height'', ''0'')])
             (Some [(''sametail'', ''True'')]) st = (graph0, st1)"
    by (cases "DotGraph_init title' []
             (Some [(''shape'', ''box''), (''width'', ''0''), (''height'', ''0'')])
             (Some [(''sametail'', ''True'')]) st") auto
  from assms obtain queue seen where c: "collect children 0 roots (Set_of roots) = Some (queue, seen)"
    by (auto simp: tree_graph_def i Let_def split: option.splits)
  obtain graph2 nd st2 where a: "add_valdoc_nodes M (graph0\<lparr>body := rankdir_body options' ''LR''\<rparr>)
      seen l ctx st1 = (graph2, nd, st2)"
    by (cases "add_valdoc_nodes M (graph0\<lparr>body := rankdir_body options' ''LR''\<rparr>) seen l ctx st1") auto
  from a have "body graph2 = rankdir_body options' ''LR''"
    unfolding add_valdoc_nodes_def by (auto dest: add_valdoc_nodes_loop_frame)
  with assms show ?thesis
    by (auto simp: tree_graph_def i c a Let_def split: sum.splits)
qed

lemma tree_graph_acyclic:
  assumes "acyclic_children children"
  shows "\<exists>g st'. tree_graph title' children M roots l ctx options' st = Some (Inr (g, st')) \<and>
           mset (map label_of (nodes g)) =
             image_mset (\<lambda>e. Some (str_dotted (canonical_name M e)))
               (mset_set (reachable children roots)) \<and>
           length (nodes g) = card (reachable children roots) \<and>
           distinct (map node_id (nodes g))"
proof -
  obtain graph0 st1 where i: "DotGraph_init title' []
             (Some [(''shape'', ''box''), (''width'', ''0''), (''height'', ''0'')])
             (Some [(''sametail'', ''True'')]) st = (graph0, st1)"
    by (cases "DotGraph_init title' []
             (Some [(''shape'', ''box''), (''width'', ''0''), (''height'', ''0'')])
             (Some [(''sametail'', ''True'')]) st") auto
  with DotGraph_init_nodes[of title' "[]" _ _ st] have n0: "nodes graph0 = []"
    by (metis fst_conv)
  let ?graph1 = "graph0\<lparr>body := rankdir_body options' ''LR''\<rparr>"
  from collect_roots[OF assms, of roots] obtain queue seen where
    c: "collect children 0 roots (Set_of roots) = Some (queue, seen)"
    and s: "set seen = reachable children roots" and d: "distinct seen"
    by blast
  obtain graph2 nd st2 where a: "add_valdoc_nodes M ?graph1 seen l ctx st1 = (graph2, nd, st2)"
    by (cases "add_valdoc_nodes M ?graph1 seen l ctx st1") auto
  then have loop: "add_valdoc_nodes_loop M l ctx (sort_key (canonical_name M) seen) ?graph1 [] st1 =
      (graph2, nd, st2)"
    by (simp add: add_valdoc_nodes_def)
  have labels: "map label_of (nodes graph2) =
      map (\<lambda>v. Some (str_dotted (canonical_name M v))) (sort_key (canonical_name M) seen)"
    using add_valdoc_nodes_loop_labels[OF loop] n0 by simp
  have dom: "dom (map_of nd) = set seen"
    using add_valdoc_nodes_loop_dom[OF loop] by simp
  have "node_inv M ?graph1 [] st1" by (simp add: node_inv_def n0)
  with loop have inv: "node_inv M graph2 nd st2" by (rule add_valdoc_nodes_loop_inv)
  have closed: "\<forall>p \<in> set seen. set (children p) \<subseteq> dom (map_of nd)"
    unfolding dom s using reachable_child by blast
  from tree_edges_ok[of seen nd children] dom closed
  obtain es where e: "tree_edges children nd seen = Inr es" by auto
  have r: "tree_graph title' children M roots l ctx options' st =
      Some (Inr (graph2\<lparr>edges := edges graph2 @ es\<rparr>, st2))"
    by (simp add: tree_graph_def i c a e Let_def)
  have m: "mset (map label_of (nodes graph2)) =
      image_mset (\<lambda>e. Some (str_dotted (canonical_name M e))) (mset_set (reachable children roots))"
  proof -
    have "mset (sort_key (canonical_name M) seen) = mset_set (reachable children roots)"
      using d s by (simp add: mset_set_set[symmetric])
    then show ?thesis unfolding labels by simp
  qed
  have "length (nodes graph2) = length seen"
    using arg_cong[OF labels, of length] by simp
  also have "\<dots> = card (reachable children roots)"
    using d s distinct_card by fastforce
  finally have len: "length (nodes graph2) = card (reachable children roots)" .
  from inv have "distinct (map node_id (nodes graph2))" by (simp add: node_inv_def)
  with r m len show ?thesis by simp
qed

section \<open>The import graph\<close>

lemma resolve_import_longest:
  "resolve_import M docindex var_name n = Some src \<longleftrightarrow>
     (\<exists>i. 0 < i \<and> i \<le> n \<and> docindex (take i var_name) = Some src \<and> is_ModuleDoc M src \<and>
        (\<forall>j v. i < j \<and> j \<le> n \<and> docindex (take j var_name) = Some v \<longrightarrow> \<not> is_ModuleDoc M v))"
proof (induction n)
  case 0
  show ?case by simp
next
  case (Suc n)
  let ?longest = "\<lambda>n i. 0 < i \<and> i \<le> n \<and> docindex (take i var_name) = Some src \<and> is_ModuleDoc M src \<and>
        (\<forall>j v. i < j \<and> j \<le> n \<and> docindex (take j var_name) = Some v \<longrightarrow> \<not> is_ModuleDoc M v)"
  show ?case
  proof (cases "\<exists>v. docindex (take (Suc n) var_name) = Some v \<and> is_ModuleDoc M v")
    case True
    then obtain v where v: "docindex (take (Suc n) var_name) = Some v" "is_ModuleDoc M v" by blast
    then have l: "resolve_import M docindex var_name (Suc n) = Some v" by simp
    show ?thesis
    proof
      assume "resolve_import M docindex var_name (Suc n) = Some src"
      with l have "v = src" by simp
      with v have "?longest (Suc n) (Suc n)" by auto
      then show "\<exists>i. ?longest (Suc n) i" by blast
    next
      assume "\<exists>i. ?longest (Suc n) i"
      then obtain i where i: "?longest (Suc n) i" by blast
      have "i = Suc n"
      proof (rule ccontr)
        assume "i \<noteq> Suc n"
        with i have "i < Suc n" by simp
        with i v show False by blast
      qed
      with i v l show "resolve_import M docindex var_name (Suc n) = Some src" by simp
    qed
  next
    case False
    then have l: "resolve_import M docindex var_name (Suc n) = resolve_import M docindex var_name n"
      by (auto split: option.splits)
    have "(\<exists>i. ?longest (Suc n) i) \<longleftrightarrow> (\<exists>i. ?longest n i)"
    proof
      assume "\<exists>i. ?longest (Suc n) i"
      then obtain i where i: "?longest (Suc n) i" by blast
      with False have ne: "i \<noteq> Suc n" by auto
      have "\<not> is_ModuleDoc M v" if "i < j \<and> j \<le> n \<and> docindex (take j var_name) = Some v" for j v
      proof -
        from that have "i < j \<and> j \<le> Suc n \<and> docindex (take j var_name) = Some v" by simp
        with i show ?thesis by blast
      qed
      with i ne have "?longest n i" by simp
      then show "\<exists>i. ?longest n i" by blast
    next
      assume "\<exists>i. ?longest n i"
      then obtain i where i: "?longest n i" by blast
      have "?longest (Suc n) i"
      proof (intro conjI allI impI)
        fix j v assume j: "i < j \<and> j \<le> Suc n \<and> docindex (take j var_name) = Some v"
        show "\<not> is_ModuleDoc M v"
        proof (cases "j = Suc n")
          case True
          with j False show ?thesis by auto
        next
          case False
          with j have "j \<le> n" by simp
          with i j show ?thesis by blast
        qed
      qed (use i in simp_all)
      then show "\<exists>i. ?longest (Suc n) i" by blast
    qed
    with l Suc.IH show ?thesis by simp
  qed
qed

text \<open>Some import recorded in \<^verbatim>\<open>dst\<close> resolves to the module \<^verbatim>\<open>src\<close>.\<close>

definition resolves_to :: "api_model \<Rightarrow> doc_index \<Rightarrow> val_doc \<Rightarrow> val_doc \<Rightarrow> bool" where
  "resolves_to M docindex dst src \<longleftrightarrow>
     (\<exists>var_name \<in> set (imports' M dst).
        resolve_import M docindex var_name (length var_name) = Some src)"

lemma import_edges_of_set:
  "set (import_edges_of M docindex dst vns E) =
     set E \<union> {(src, dst) | src. \<exists>vn \<in> set vns. resolve_import M docindex vn (length vn) = Some src}"
  by (induction vns arbitrary: E) (auto simp: set_Set_add split: option.splits)

lemma import_edges_of_distinct:
  "distinct E \<Longrightarrow> distinct (import_edges_of M docindex dst vns E)"
  by (induction vns arbitrary: E) (auto simp: distinct_Set_add split: option.splits)

lemma import_edges_set:
  "set (import_edges M docindex ms E) =
     set E \<union> {(src, dst). dst \<in> set ms \<and> resolves_to M docindex dst src}"
  by (induction ms arbitrary: E) (auto simp: import_edges_of_set resolves_to_def)

lemma import_edges_distinct: "distinct E \<Longrightarrow> distinct (import_edges M docindex ms E)"
  by (induction ms arbitrary: E) (auto simp: import_edges_of_distinct)

lemma append_edges_Cons:
  "append_edges nd ((src, dst) # rest) =
     (if src \<in> dom (map_of nd) \<and> dst \<in> dom (map_of nd)
      then DotGraphEdge_init (the (map_of nd src)) (the (map_of nd dst)) None [] #
           append_edges nd rest
      else append_edges nd rest)"
  by (auto split: option.splits)

lemma append_edges_pairs:
  "map (\<lambda>e. (start e, end_node e)) (append_edges nd es) =
     map (\<lambda>(s, d). (node_id (the (map_of nd s)), node_id (the (map_of nd d))))
       (filter (\<lambda>(s, d). s \<in> dom (map_of nd) \<and> d \<in> dom (map_of nd)) es)"
proof (induction es)
  case Nil
  show ?case by simp
next
  case (Cons x es)
  obtain src dst where x: "x = (src, dst)" by (cases x)
  from Cons show ?case
    unfolding x append_edges_Cons by (simp add: DotGraphEdge_init_def)
qed

lemma append_edges_distinct:
  assumes inv: "node_inv M graph nd st" and d: "distinct es"
  shows "distinct (map (\<lambda>e. (start e, end_node e)) (append_edges nd es))"
proof -
  let ?P = "\<lambda>(s, d). s \<in> dom (map_of nd) \<and> d \<in> dom (map_of nd)"
  let ?f = "\<lambda>(s, d). (node_id (the (map_of nd s)), node_id (the (map_of nd d)))"
  from inv have inj: "\<And>k k' n n'. map_of nd k = Some n \<Longrightarrow> map_of nd k' = Some n' \<Longrightarrow>
        node_id n = node_id n' \<Longrightarrow> k = k'"
    unfolding node_inv_def by blast
  have "inj_on ?f (set (filter ?P es))"
  proof (rule inj_onI)
    fix x y assume x: "x \<in> set (filter ?P es)" and y: "y \<in> set (filter ?P es)" and e: "?f x = ?f y"
    obtain s d where xs: "x = (s, d)" by (cases x)
    obtain s' d' where ys: "y = (s', d')" by (cases y)
    from x xs obtain ns nd' where 1: "map_of nd s = Some ns" "map_of nd d = Some nd'" by auto
    from y ys obtain ns' nd'' where 2: "map_of nd s' = Some ns'" "map_of nd d' = Some nd''" by auto
    from e xs ys 1 2 have 3: "node_id ns = node_id ns'" "node_id nd' = node_id nd''" by simp_all
    from inj[OF 1(1) 2(1) 3(1)] inj[OF 1(2) 2(2) 3(2)] xs ys show "x = y" by simp
  qed
  moreover from d have "distinct (filter ?P es)" by simp
  ultimately show ?thesis unfolding append_edges_pairs by (simp add: distinct_map)
qed

lemma append_edges_endpoints:
  assumes inv: "node_inv M graph nd st"
  shows "e \<in> set (append_edges nd es) \<Longrightarrow>
         \<exists>src dst s d. (src, dst) \<in> set es \<and> map_of nd src = Some s \<and> map_of nd dst = Some d \<and>
           s \<in> set (nodes graph) \<and> d \<in> set (nodes graph) \<and>
           label_of s = Some (str_dotted (canonical_name M src)) \<and>
           label_of d = Some (str_dotted (canonical_name M dst)) \<and>
           start e = node_id s \<and> end_node e = node_id d"
proof (induction es)
  case Nil
  then show ?case by simp
next
  case (Cons x es)
  obtain src dst where x: "x = (src, dst)" by (cases x)
  from inv have c: "\<And>k n. map_of nd k = Some n \<Longrightarrow>
        n \<in> set (nodes graph) \<and> label_of n = Some (str_dotted (canonical_name M k))"
    unfolding node_inv_def by blast
  show ?case
  proof (cases "e \<in> set (append_edges nd es)")
    case True
    from Cons.IH[OF True] show ?thesis by auto
  next
    case False
    with Cons.prems have in_dom: "src \<in> dom (map_of nd) \<and> dst \<in> dom (map_of nd)"
      and e: "e = DotGraphEdge_init (the (map_of nd src)) (the (map_of nd dst)) None []"
      unfolding x append_edges_Cons by (auto split: if_splits)
    from in_dom obtain s d where sd: "map_of nd src = Some s" "map_of nd dst = Some d" by auto
    with e c[OF sd(1)] c[OF sd(2)] show ?thesis
      by (intro exI[of _ src] exI[of _ dst] exI[of _ s] exI[of _ d])
         (simp add: DotGraphEdge_init_def x)
  qed
qed

lemma append_edges_member:
  assumes "map_of nd src = Some s" "map_of nd dst = Some d"
  shows "(src, dst) \<in> set es \<Longrightarrow>
         \<exists>e \<in> set (append_edges nd es). start e = node_id s \<and> end_node e = node_id d"
proof (induction es)
  case Nil
  then show ?case by simp
next
  case (Cons x es)
  obtain src' dst' where x: "x = (src', dst')" by (cases x)
  show ?case
  proof (cases "x = (src, dst)")
    case True
    with assms show ?thesis
      unfolding True append_edges_Cons by (auto simp: DotGraphEdge_init_def)
  next
    case False
    with Cons obtain e where "e \<in> set (append_edges nd es)" "start e = node_id s \<and> end_node e = node_id d"
      by auto
    then show ?thesis unfolding x append_edges_Cons by auto
  qed
qed

lemma rankdir_graph:
  assumes "body graph0 = []"
  shows "(if (case map_of options' ''dir'' of None \<Rightarrow> dflt | Some d \<Rightarrow> d) \<noteq> ''TB''
          then graph0\<lparr>body := body graph0 @ ''rankdir='' @
                 (case map_of options' ''dir'' of None \<Rightarrow> dflt | Some d \<Rightarrow> d) @ [CHR 0x0A]\<rparr>
          else graph0) = graph0\<lparr>body := rankdir_body options' dflt\<rparr>"
proof -
  have "graph0\<lparr>body := []\<rparr> = graph0" using assms by (cases graph0) simp
  with assms show ?thesis by (simp add: rankdir_body_def Let_def)
qed

lemma import_graph_shape:
  "\<exists>graph2 nd st2.
     import_graph M modules docindex l ctx options' st =
       (graph2\<lparr>edges := append_edges nd (import_edges M docindex modules [])\<rparr>, st2) \<and>
     node_inv M graph2 nd st2 \<and> dom (map_of nd) = set modules \<and>
     body graph2 = rankdir_body options' ''RL''"
proof -
  obtain graph0 st1 where i: "DotGraph_init ''Import Graph'' []
             (Some [(''shape'', ''box''), (''width'', ''0''), (''height'', ''0'')])
             (Some [(''sametail'', ''True'')]) st = (graph0, st1)"
    by (cases "DotGraph_init ''Import Graph'' []
             (Some [(''shape'', ''box''), (''width'', ''0''), (''height'', ''0'')])
             (Some [(''sametail'', ''True'')]) st") auto
  from i DotGraph_init_body[of "''Import Graph''" "[]" _ _ st] have b: "body graph0 = []"
    by (metis fst_conv)
  from i DotGraph_init_nodes[of "''Import Graph''" "[]" _ _ st] have n0: "nodes graph0 = []"
    by (metis fst_conv)
  from i DotGraph_init_edges[of "''Import Graph''" "[]" _ _ st] have e0: "edges graph0 = []"
    by (metis fst_conv)
  let ?graph1 = "graph0\<lparr>body := rankdir_body options' ''RL''\<rparr>"
  obtain graph2 nd st2 where a: "add_valdoc_nodes M ?graph1 modules l ctx st1 = (graph2, nd, st2)"
    by (cases "add_valdoc_nodes M ?graph1 modules l ctx st1") auto
  then have loop: "add_valdoc_nodes_loop M l ctx (sort_key (canonical_name M) modules) ?graph1 [] st1 =
      (graph2, nd, st2)"
    by (simp add: add_valdoc_nodes_def)
  from add_valdoc_nodes_loop_frame[OF loop] e0
  have f: "body graph2 = rankdir_body options' ''RL''" "edges graph2 = []" by simp_all
  have dom: "dom (map_of nd) = set modules"
    using add_valdoc_nodes_loop_dom[OF loop] by simp
  have "node_inv M ?graph1 [] st1" by (simp add: node_inv_def n0)
  with loop have inv: "node_inv M graph2 nd st2" by (rule add_valdoc_nodes_loop_inv)
  have "import_graph M modules docindex l ctx options' st =
       (graph2\<lparr>edges := append_edges nd (import_edges M docindex modules [])\<rparr>, st2)"
    unfolding import_graph_def Let_def i prod.case rankdir_graph[OF b] a
    by (simp add: f)
  with inv dom f show ?thesis by blast
qed

lemma import_graph_body:
  "body (fst (import_graph M modules docindex l ctx options' st)) = rankdir_body options' ''RL''"
  using import_graph_shape[of M modules docindex l ctx options' st] by auto

text \<open>The body and the node labels of the graph a tree builder returns.\<close>

definition result_body :: "(py_error + dot_graph \<times> process_state) option \<Rightarrow> string option" where
  "result_body r = (case r of Some (Inr (g, st)) \<Rightarrow> Some (body g) | _ \<Rightarrow> None)"

definition result_labels ::
  "(py_error + dot_graph \<times> process_state) option \<Rightarrow> string option list option" where
  "result_labels r = (case r of Some (Inr (g, st)) \<Rightarrow> Some (map label_of (nodes g)) | _ \<Rightarrow> None)"

text \<open>
  Example models: two modules that are submodules of each other; a class with two
  subclasses that share a subclass; a module \<^verbatim>\<open>m\<close> that imports \<^verbatim>\<open>a.b.c\<close>, \<^verbatim>\<open>a.b.d\<close> and \<^verbatim>\<open>a.b\<close>, where
  the index knows the module \<^verbatim>\<open>a.b\<close>, the module \<^verbatim>\<open>m\<close> and the class \<^verbatim>\<open>a.b.c\<close>.
\<close>

definition no_index :: doc_index where
  "no_index name = None"

definition cyclic_model :: api_model where
  "cyclic_model =
    \<lparr>canonical_name = (\<lambda>d. if d = 0 then [''a''] else [''b'']),
     submodules = (\<lambda>d. if d = 0 then [1] else [0]),
     subclasses = (\<lambda>d. if d = 0 then [1] else [0]),
     imports' = (\<lambda>d. []),
     is_ModuleDoc = (\<lambda>d. True)\<rparr>"

definition diamond_model :: api_model where
  "diamond_model =
    \<lparr>canonical_name = (\<lambda>d. [''c'' @ str_nat d]),
     submodules = (\<lambda>d. []),
     subclasses = (\<lambda>d. if d = 0 then [1, 2] else if d = 1 then [3] else if d = 2 then [3] else []),
     imports' = (\<lambda>d. []),
     is_ModuleDoc = (\<lambda>d. False)\<rparr>"

definition import_model :: api_model where
  "import_model =
    \<lparr>canonical_name = (\<lambda>d. if d = 0 then [''a'', ''b''] else [''m'']),
     submodules = (\<lambda>d. []),
     subclasses = (\<lambda>d. []),
     imports' = (\<lambda>d. if d = 1 then [[''a'', ''b'', ''c''], [''a'', ''b'', ''d''], [''a'', ''b'']]
                      else []),
     is_ModuleDoc = (\<lambda>d. d < 2)\<rparr>"

definition ab_index :: doc_index where
  "ab_index name =
    (if name = [''a'', ''b''] then Some 0
     else if name = [''m''] then Some 1
     else if name = [''a'', ''b'', ''c''] then Some 2
     else None)"

lemma collect_runs_on:
  assumes "collect children i queue seen = Some r"
  shows "(\<forall>d. length (children d) = 1) \<longrightarrow> i < length queue \<longrightarrow> False"
proof (rule collect.raw_induct[where P = "\<lambda>children i queue seen r.
      (\<forall>d. length (children d) = 1) \<longrightarrow> i < length queue \<longrightarrow> False", OF _ assms])
  fix f :: "(val_doc \<Rightarrow> val_doc list) \<Rightarrow> nat \<Rightarrow> val_doc list \<Rightarrow> val_doc list
      \<Rightarrow> (val_doc list \<times> val_doc list) option"
  fix children i queue seen r
  assume IH: "\<And>children i queue seen r. f children i queue seen = Some r \<Longrightarrow>
      (\<forall>d. length (children d) = 1) \<longrightarrow> i < length queue \<longrightarrow> False"
  assume step: "(if i < length queue
      then f children (i + 1) (queue @ children (queue ! i)) (Set_update seen (children (queue ! i)))
      else Some (queue, seen)) = Some r"
  show "(\<forall>d. length (children d) = 1) \<longrightarrow> i < length queue \<longrightarrow> False"
  proof (intro impI)
    assume one: "\<forall>d. length (children d) = 1" and i: "i < length queue"
    with step have "f children (i + 1) (queue @ children (queue ! i))
        (Set_update seen (children (queue ! i))) = Some r" by simp
    from IH[OF this] one i show False by simp
  qed
qed

lemma acyclic_tree_model: "acyclic_children (submodules tree_model)"
  unfolding acyclic_children_def
  by (rule wf_subset[OF wf_measure[of "\<lambda>d. if d = 0 then 1 else (0::nat)"]])
     (auto simp: tree_model_def split: if_splits)

lemma acyclic_diamond_model: "acyclic_children (subclasses diamond_model)"
  unfolding acyclic_children_def
  by (rule wf_subset[OF wf_measure[of "\<lambda>d. 4 - d"]])
     (auto simp: diamond_model_def split: if_splits)

lemma collect_cyclic: "collect (\<lambda>d. if d = 0 then [1] else [0]) 0 [0] (Set_of [0]) = None"
proof (cases "collect (\<lambda>d. if d = 0 then [1] else [0]) 0 [0] (Set_of [0])")
  case None
  then show ?thesis .
next
  case (Some r)
  have "\<forall>d::nat. length (if d = 0 then [1::nat] else [0]) = 1" by simp
  with collect_runs_on[OF Some] show ?thesis by simp
qed

lemma diamond_queue:
  "collect (subclasses diamond_model) 0 [0] (Set_of [0]) = Some ([0, 1, 2, 3, 3], [0, 1, 2, 3])"
  by code_simp

lemma diamond_labels:
  "result_labels (class_tree_graph diamond_model [0] unknown_linker None [] initial_state) =
     Some [Some ''c0'', Some ''c1'', Some ''c2'', Some ''c3'']"
  by code_simp

lemma tree_labels:
  "result_labels (package_tree_graph tree_model [0] unknown_linker None [] initial_state) =
     Some [Some ''A'', Some ''A.B'', Some ''A.C'']"
  by code_simp

text \<open>
  Claim C6 fails as stated. On a model whose submodule relation has a cycle the
  traversal never returns, for both tree builders; and a class that is reached over two
  parents is taken from the queue twice.
\<close>

theorem cyclic_traversal_never_returns:
  "package_tree_graph cyclic_model [0] unknown_linker None [] initial_state = None \<and>
   class_tree_graph cyclic_model [0] unknown_linker None [] initial_state = None \<and>
   collect (subclasses diamond_model) 0 [0] (Set_of [0]) = Some ([0, 1, 2, 3, 3], [0, 1, 2, 3])"
proof -
  have "package_tree_graph cyclic_model [0] unknown_linker None [] initial_state = None"
    by (simp add: package_tree_graph_eq tree_graph_def cyclic_model_def collect_cyclic split_beta)
  moreover have "class_tree_graph cyclic_model [0] unknown_linker None [] initial_state = None"
    by (simp add: class_tree_graph_eq tree_graph_def cyclic_model_def collect_cyclic split_beta)
  ultimately show ?thesis using diamond_queue by blast
qed

text \<open>
  Claim C6, amended. For every object model whose parent-child relation (submodules for
  the package tree, subclasses for the class tree) is well-founded, the traversal of the
  tree builder terminates, no error is raised, and the graph has exactly one node for
  every object reachable from the roots, labelled with its canonical name: as many nodes
  as reachable objects, with pairwise different identifiers.
\<close>

theorem tree_builders_acyclic:
  "(acyclic_children (submodules M) \<longrightarrow>
      (\<exists>g st'. package_tree_graph M packages l ctx options' st = Some (Inr (g, st')) \<and>
         mset (map label_of (nodes g)) =
           image_mset (\<lambda>e. Some (str_dotted (canonical_name M e)))
             (mset_set (reachable (submodules M) packages)) \<and>
         length (nodes g) = card (reachable (submodules M) packages) \<and>
         distinct (map node_id (nodes g)))) \<and>
   (acyclic_children (subclasses M) \<longrightarrow>
      (\<exists>g st'. class_tree_graph M bases l ctx options' st = Some (Inr (g, st')) \<and>
         mset (map label_of (nodes g)) =
           image_mset (\<lambda>e. Some (str_dotted (canonical_name M e)))
             (mset_set (reachable (subclasses M) bases)) \<and>
         length (nodes g) = card (reachable (subclasses M) bases) \<and>
         distinct (map node_id (nodes g))))"
  unfolding package_tree_graph_eq class_tree_graph_eq
  using tree_graph_acyclic[of "submodules M" "''Package Tree''" M packages l ctx options' st]
    tree_graph_acyclic[of "subclasses M" "''Class Hierarchy''" M bases l ctx options' st]
  by blast

theorem tree_builders_acyclic_witness:
  "acyclic_children (submodules tree_model) \<and>
   result_labels (package_tree_graph tree_model [0] unknown_linker None [] initial_state) =
     Some [Some ''A'', Some ''A.B'', Some ''A.C''] \<and>
   card (reachable (submodules tree_model) [0]) = 3 \<and>
   acyclic_children (subclasses diamond_model) \<and>
   result_labels (class_tree_graph diamond_model [0] unknown_linker None [] initial_state) =
     Some [Some ''c0'', Some ''c1'', Some ''c2'', Some ''c3''] \<and>
   card (reachable (subclasses diamond_model) [0]) = 4"
proof -
  note t = tree_builders_acyclic[where M = tree_model and packages = "[0]" and l = unknown_linker
      and ctx = None and options' = "[]" and st = initial_state]
  from t acyclic_tree_model obtain g st' where
    g: "package_tree_graph tree_model [0] unknown_linker None [] initial_state = Some (Inr (g, st'))"
    and n: "length (nodes g) = card (reachable (submodules tree_model) [0])"
    by blast
  from tree_labels g have "map label_of (nodes g) = [Some ''A'', Some ''A.B'', Some ''A.C'']"
    by (simp add: result_labels_def)
  then have "length (nodes g) = 3" using length_map[of label_of "nodes g"] by simp
  with n have a: "card (reachable (submodules tree_model) [0]) = 3" by simp
  note d = tree_builders_acyclic[where M = diamond_model and bases = "[0]" and l = unknown_linker
      and ctx = None and options' = "[]" and st = initial_state]
  from d acyclic_diamond_model obtain g' st'' where
    g': "class_tree_graph diamond_model [0] unknown_linker None [] initial_state = Some (Inr (g', st''))"
    and n': "length (nodes g') = card (reachable (subclasses diamond_model) [0])"
    by blast
  from diamond_labels g' have "map label_of (nodes g') = [Some ''c0'', Some ''c1'', Some ''c2'', Some ''c3'']"
    by (simp add: result_labels_def)
  then have "length (nodes g') = 4" using length_map[of label_of "nodes g'"] by simp
  with n' have b: "card (reachable (subclasses diamond_model) [0]) = 4" by simp
  from a b acyclic_tree_model acyclic_diamond_model tree_labels diamond_labels show ?thesis by blast
qed

text \<open>
  Claim C7 fails as stated. The package tree gets \<^verbatim>\<open>rankdir=LR\<close> when the option \<^verbatim>\<open>dir\<close> is
  \<^verbatim>\<open>LR\<close>, the default, or absent, and gets no directive when \<^verbatim>\<open>dir\<close> is \<^verbatim>\<open>TB\<close>, which differs from the
  default; the import graph gets \<^verbatim>\<open>rankdir=RL\<close> when \<^verbatim>\<open>dir\<close> is \<^verbatim>\<open>RL\<close>, its default.
\<close>

theorem rankdir_emitted_for_default:
  "result_body (package_tree_graph tree_model [0] unknown_linker None [(''dir'', ''LR'')] initial_state) =
     Some (''rankdir=LR'' @ [CHR 0x0A]) \<and>
   result_body (package_tree_graph tree_model [0] unknown_linker None [] initial_state) =
     Some (''rankdir=LR'' @ [CHR 0x0A]) \<and>
   result_body (package_tree_graph tree_model [0] unknown_linker None [(''dir'', ''TB'')] initial_state) =
     Some [] \<and>
   body (fst (import_graph import_model [0, 1] ab_index unknown_linker None [(''dir'', ''RL'')]
     initial_state)) = ''rankdir=RL'' @ [CHR 0x0A]"
proof (intro conjI)
  show "result_body (package_tree_graph tree_model [0] unknown_linker None [(''dir'', ''LR'')] initial_state) =
     Some (''rankdir=LR'' @ [CHR 0x0A])" by code_simp
  show "result_body (package_tree_graph tree_model [0] unknown_linker None [] initial_state) =
     Some (''rankdir=LR'' @ [CHR 0x0A])" by code_simp
  show "result_body (package_tree_graph tree_model [0] unknown_linker None [(''dir'', ''TB'')] initial_state) =
     Some []" by code_simp
  show "body (fst (import_graph import_model [0, 1] ab_index unknown_linker None [(''dir'', ''RL'')]
     initial_state)) = ''rankdir=RL'' @ [CHR 0x0A]" by code_simp
qed

text \<open>
  Claim C7, amended. For every builder call that returns, the body of the graph is the
  directive \<^verbatim>\<open>rankdir=<dir>\<close> followed by a newline when the effective direction (the option
  \<^verbatim>\<open>dir\<close>, or when it is absent the default of the builder: \<^verbatim>\<open>LR\<close> for package and class trees, \<^verbatim>\<open>RL\<close>
  for import graphs) is not \<^verbatim>\<open>TB\<close>, and is empty when it is \<^verbatim>\<open>TB\<close>.
\<close>

theorem rankdir_unless_TB:
  "(package_tree_graph M packages l ctx options' st = Some (Inr (g, st')) \<longrightarrow>
      body g = rankdir_body options' ''LR'') \<and>
   (class_tree_graph M bases l ctx options' st = Some (Inr (g', st'')) \<longrightarrow>
      body g' = rankdir_body options' ''LR'') \<and>
   body (fst (import_graph M modules docindex l ctx options' st)) = rankdir_body options' ''RL''"
  unfolding package_tree_graph_eq class_tree_graph_eq
  using tree_graph_body import_graph_body by blast

theorem rankdir_unless_TB_witness:
  "result_body (package_tree_graph tree_model [0] unknown_linker None [(''dir'', ''BT'')] initial_state) =
     Some (''rankdir=BT'' @ [CHR 0x0A]) \<and>
   result_body (class_tree_graph diamond_model [0] unknown_linker None [(''dir'', ''TB'')] initial_state) =
     Some [] \<and>
   body (fst (import_graph import_model [0, 1] ab_index unknown_linker None [(''dir'', ''TB'')]
     initial_state)) = []"
proof -
  from tree_graph_acyclic[OF acyclic_tree_model, of "''Package Tree''" tree_model "[0]" unknown_linker None
      "[(''dir'', ''BT'')]" initial_state]
  obtain g st' where g: "package_tree_graph tree_model [0] unknown_linker None [(''dir'', ''BT'')]
      initial_state = Some (Inr (g, st'))"
    unfolding package_tree_graph_eq by blast
  note r = rankdir_unless_TB[where M = tree_model and packages = "[0]" and l = unknown_linker
      and ctx = None and options' = "[(''dir'', ''BT'')]" and st = initial_state and g = g
      and st' = st']
  from r g have "body g = rankdir_body [(''dir'', ''BT'')] ''LR''" by blast
  then have a: "result_body (package_tree_graph tree_model [0] unknown_linker None [(''dir'', ''BT'')]
      initial_state) = Some (''rankdir=BT'' @ [CHR 0x0A])"
    by (simp add: g result_body_def rankdir_body_def)
  from tree_graph_acyclic[OF acyclic_diamond_model, of "''Class Hierarchy''" diamond_model "[0]"
      unknown_linker None "[(''dir'', ''TB'')]" initial_state]
  obtain g' st'' where g': "class_tree_graph diamond_model [0] unknown_linker None [(''dir'', ''TB'')]
      initial_state = Some (Inr (g', st''))"
    unfolding class_tree_graph_eq by blast
  note r' = rankdir_unless_TB[where M = diamond_model and bases = "[0]" and l = unknown_linker
      and ctx = None and options' = "[(''dir'', ''TB'')]" and st = initial_state and g' = g'
      and st'' = st'']
  from r' g' have "body g' = rankdir_body [(''dir'', ''TB'')] ''LR''" by blast
  then have c: "result_body (class_tree_graph diamond_model [0] unknown_linker None [(''dir'', ''TB'')]
      initial_state) = Some []"
    by (simp add: g' result_body_def rankdir_body_def)
  have b: "body (fst (import_graph import_model [0, 1] ab_index unknown_linker None [(''dir'', ''TB'')]
     initial_state)) = []"
    using rankdir_unless_TB[where options' = "[(''dir'', ''TB'')]" and M = import_model
        and modules = "[0, 1]" and docindex = ab_index and l = unknown_linker and ctx = None
        and st = initial_state]
    by (simp add: rankdir_body_def)
  from a b c show ?thesis by blast
qed

lemma import_graph_example:
  "fst (import_graph import_model [0, 1] ab_index unknown_linker None [] initial_state) =
     \<lparr>title = ''Import Graph'',
      nodes = [\<lparr>attribs = [(''label'', ''a.b'')], node_id = 0\<rparr>,
               \<lparr>attribs = [(''label'', ''m'')], node_id = 1\<rparr>],
      edges = [\<lparr>attribs = [], start = 0, end_node = 1\<rparr>],
      body = ''rankdir=RL'' @ [CHR 0x0A],
      node_defaults = [(''shape'', ''box''), (''width'', ''0''), (''height'', ''0'')],
      edge_defaults = [(''sametail'', ''True'')],
      uid = ''import_graph''\<rparr>"
  by code_simp

text \<open>
  Claim C5. An imported dotted name resolves to the module that the index gives for its
  longest prefix that denotes a module, and to nothing when no prefix does. In the import
  graph, every import recorded in a module of the list that resolves to a module of the
  list gives an edge from the node of that module to the node of the importing module,
  and every edge of the graph is such an edge.
\<close>

theorem import_edge_from_longest_prefix:
  "(resolve_import M docindex var_name (length var_name) = Some src \<longleftrightarrow>
      (\<exists>i. 0 < i \<and> i \<le> length var_name \<and> docindex (take i var_name) = Some src \<and>
         is_ModuleDoc M src \<and>
         (\<forall>j v. i < j \<and> j \<le> length var_name \<and> docindex (take j var_name) = Some v \<longrightarrow>
            \<not> is_ModuleDoc M v))) \<and>
   (dst \<in> set modules \<and> var_name \<in> set (imports' M dst) \<and>
    resolve_import M docindex var_name (length var_name) = Some src \<and> src \<in> set modules \<longrightarrow>
      (\<exists>s d e. s \<in> set (nodes (fst (import_graph M modules docindex l ctx options' st))) \<and>
         d \<in> set (nodes (fst (import_graph M modules docindex l ctx options' st))) \<and>
         e \<in> set (edges (fst (import_graph M modules docindex l ctx options' st))) \<and>
         label_of s = Some (str_dotted (canonical_name M src)) \<and>
         label_of d = Some (str_dotted (canonical_name M dst)) \<and>
         start e = node_id s \<and> end_node e = node_id d)) \<and>
   (\<forall>e \<in> set (edges (fst (import_graph M modules docindex l ctx options' st))).
      \<exists>src' dst' s d. dst' \<in> set modules \<and> src' \<in> set modules \<and>
         resolves_to M docindex dst' src' \<and>
         s \<in> set (nodes (fst (import_graph M modules docindex l ctx options' st))) \<and>
         d \<in> set (nodes (fst (import_graph M modules docindex l ctx options' st))) \<and>
         label_of s = Some (str_dotted (canonical_name M src')) \<and>
         label_of d = Some (str_dotted (canonical_name M dst')) \<and>
         start e = node_id s \<and> end_node e = node_id d)"
proof -
  let ?E = "import_edges M docindex modules []"
  from import_graph_shape[of M modules docindex l ctx options' st]
  obtain graph2 nd st2 where
    g: "import_graph M modules docindex l ctx options' st = (graph2\<lparr>edges := append_edges nd ?E\<rparr>, st2)"
    and inv: "node_inv M graph2 nd st2" and dom: "dom (map_of nd) = set modules"
    by blast
  from inv have c: "\<And>k n. map_of nd k = Some n \<Longrightarrow>
        n \<in> set (nodes graph2) \<and> label_of n = Some (str_dotted (canonical_name M k))"
    unfolding node_inv_def by blast
  have E: "set ?E = {(src, dst). dst \<in> set modules \<and> resolves_to M docindex dst src}"
    by (simp add: import_edges_set)
  have 1: "resolve_import M docindex var_name (length var_name) = Some src \<longleftrightarrow>
      (\<exists>i. 0 < i \<and> i \<le> length var_name \<and> docindex (take i var_name) = Some src \<and>
         is_ModuleDoc M src \<and>
         (\<forall>j v. i < j \<and> j \<le> length var_name \<and> docindex (take j var_name) = Some v \<longrightarrow>
            \<not> is_ModuleDoc M v))"
    by (rule resolve_import_longest)
  have 2: "\<exists>s d e. s \<in> set (nodes graph2) \<and> d \<in> set (nodes graph2) \<and>
         e \<in> set (append_edges nd ?E) \<and>
         label_of s = Some (str_dotted (canonical_name M src)) \<and>
         label_of d = Some (str_dotted (canonical_name M dst)) \<and>
         start e = node_id s \<and> end_node e = node_id d"
    if h: "dst \<in> set modules \<and> var_name \<in> set (imports' M dst) \<and>
        resolve_import M docindex var_name (length var_name) = Some src \<and> src \<in> set modules"
  proof -
    from h have "resolves_to M docindex dst src" unfolding resolves_to_def by blast
    with h E have m: "(src, dst) \<in> set ?E" by simp
    from h dom obtain s d where sd: "map_of nd src = Some s" "map_of nd dst = Some d" by blast
    from append_edges_member[OF sd m] obtain e where
      "e \<in> set (append_edges nd ?E)" "start e = node_id s \<and> end_node e = node_id d" by blast
    with c[OF sd(1)] c[OF sd(2)] show ?thesis by blast
  qed
  have 3: "\<exists>src' dst' s d. dst' \<in> set modules \<and> src' \<in> set modules \<and>
         resolves_to M docindex dst' src' \<and> s \<in> set (nodes graph2) \<and> d \<in> set (nodes graph2) \<and>
         label_of s = Some (str_dotted (canonical_name M src')) \<and>
         label_of d = Some (str_dotted (canonical_name M dst')) \<and>
         start e = node_id s \<and> end_node e = node_id d"
    if e: "e \<in> set (append_edges nd ?E)" for e
  proof -
    from append_edges_endpoints[OF inv e] obtain src' dst' s d where
      m: "(src', dst') \<in> set ?E" and sd: "map_of nd src' = Some s" "map_of nd dst' = Some d"
      and r: "s \<in> set (nodes graph2)" "d \<in> set (nodes graph2)"
        "label_of s = Some (str_dotted (canonical_name M src'))"
        "label_of d = Some (str_dotted (canonical_name M dst'))"
        "start e = node_id s" "end_node e = node_id d"
      by blast
    from m E have "dst' \<in> set modules" "resolves_to M docindex dst' src'" by auto
    moreover from sd dom have "src' \<in> set modules" by blast
    ultimately show ?thesis using r by blast
  qed
  from 1 2 3 show ?thesis unfolding g by simp
qed

theorem import_edge_from_longest_prefix_witness:
  "resolve_import import_model ab_index [''a'', ''b'', ''c''] (length [''a'', ''b'', ''c'']) = Some 0 \<and>
   ab_index [''a'', ''b''] = Some 0 \<and> ab_index [''a''] = None \<and>
   \<not> is_ModuleDoc import_model 2 \<and> ab_index [''a'', ''b'', ''c''] = Some 2 \<and>
   map label_of (nodes (fst (import_graph import_model [0, 1] ab_index unknown_linker None []
     initial_state))) = [Some ''a.b'', Some ''m''] \<and>
   edges (fst (import_graph import_model [0, 1] ab_index unknown_linker None [] initial_state)) =
     [\<lparr>attribs = [], start = 0, end_node = 1\<rparr>]"
proof -
  have i: "ab_index [''a'', ''b''] = Some 0" "ab_index [''a''] = None"
    "ab_index [''a'', ''b'', ''c''] = Some 2" "\<not> is_ModuleDoc import_model 2"
    "is_ModuleDoc import_model 0"
    by (simp_all add: ab_index_def import_model_def)
  have "\<exists>i. 0 < i \<and> i \<le> length [''a'', ''b'', ''c''] \<and>
      ab_index (take i [''a'', ''b'', ''c'']) = Some 0 \<and> is_ModuleDoc import_model 0 \<and>
      (\<forall>j v. i < j \<and> j \<le> length [''a'', ''b'', ''c''] \<and>
         ab_index (take j [''a'', ''b'', ''c'']) = Some v \<longrightarrow> \<not> is_ModuleDoc import_model v)"
  proof (intro exI[of _ 2] conjI allI impI)
    fix j v
    assume a: "2 < j \<and> j \<le> length [''a'', ''b'', ''c''] \<and>
        ab_index (take j [''a'', ''b'', ''c'']) = Some v"
    from a have j: "j = 3" by simp
    from a have v: "ab_index (take j [''a'', ''b'', ''c'']) = Some v" by blast
    from v have "ab_index [''a'', ''b'', ''c''] = Some v" unfolding j by simp
    with i show "\<not> is_ModuleDoc import_model v" by simp
  qed (simp_all add: i)
  with import_edge_from_longest_prefix[where M = import_model and docindex = ab_index
      and var_name = "[''a'', ''b'', ''c'']" and src = 0 and modules = "[0, 1]"
      and l = unknown_linker and ctx = None and options' = "[]" and st = initial_state]
  have "resolve_import import_model ab_index [''a'', ''b'', ''c''] (length [''a'', ''b'', ''c'']) = Some 0"
    by blast
  moreover have "map label_of (nodes (fst (import_graph import_model [0, 1] ab_index unknown_linker
      None [] initial_state))) = [Some ''a.b'', Some ''m'']"
    by (simp only: import_graph_example) (simp add: label_of_def)
  moreover have "edges (fst (import_graph import_model [0, 1] ab_index unknown_linker None []
      initial_state)) = [\<lparr>attribs = [], start = 0, end_node = 1\<rparr>]"
    by (simp only: import_graph_example) simp
  ultimately show ?thesis using i by blast
qed

text \<open>
  Claim C10. In the import graph no two edges have the same start and end node, however
  many imports of the destination resolve to the source; the start and the end of every
  edge are nodes of the graph; and the nodes have pairwise different identifiers.
\<close>

theorem import_graph_edges_unique:
  "distinct (map (\<lambda>e. (start e, end_node e))
     (edges (fst (import_graph M modules docindex l ctx options' st)))) \<and>
   (\<forall>e \<in> set (edges (fst (import_graph M modules docindex l ctx options' st))).
      start e \<in> node_id ` set (nodes (fst (import_graph M modules docindex l ctx options' st))) \<and>
      end_node e \<in> node_id ` set (nodes (fst (import_graph M modules docindex l ctx options' st)))) \<and>
   distinct (map node_id (nodes (fst (import_graph M modules docindex l ctx options' st))))"
proof -
  let ?E = "import_edges M docindex modules []"
  from import_graph_shape[of M modules docindex l ctx options' st]
  obtain graph2 nd st2 where
    g: "import_graph M modules docindex l ctx options' st = (graph2\<lparr>edges := append_edges nd ?E\<rparr>, st2)"
    and inv: "node_inv M graph2 nd st2"
    by blast
  have "distinct ?E" by (rule import_edges_distinct) simp
  with inv have 1: "distinct (map (\<lambda>e. (start e, end_node e)) (append_edges nd ?E))"
    by (rule append_edges_distinct)
  have 2: "start e \<in> node_id ` set (nodes graph2) \<and> end_node e \<in> node_id ` set (nodes graph2)"
    if "e \<in> set (append_edges nd ?E)" for e
    using append_edges_endpoints[OF inv that] by auto
  from inv have 3: "distinct (map node_id (nodes graph2))" by (simp add: node_inv_def)
  from 1 2 3 show ?thesis unfolding g by simp
qed

theorem import_graph_edges_unique_witness:
  "imports' import_model 1 = [[''a'', ''b'', ''c''], [''a'', ''b'', ''d''], [''a'', ''b'']] \<and>
   map (\<lambda>e. (start e, end_node e))
     (edges (fst (import_graph import_model [0, 1] ab_index unknown_linker None [] initial_state))) =
     [(0, 1)] \<and>
   map node_id (nodes (fst (import_graph import_model [0, 1] ab_index unknown_linker None []
     initial_state))) = [0, 1] \<and>
   distinct (map (\<lambda>e. (start e, end_node e))
     (edges (fst (import_graph import_model [0, 1] ab_index unknown_linker None [] initial_state))))"
proof -
  have "distinct (map (\<lambda>e. (start e, end_node e))
     (edges (fst (import_graph import_model [0, 1] ab_index unknown_linker None [] initial_state))))"
    using import_graph_edges_unique[of import_model "[0, 1]" ab_index unknown_linker None "[]"
        initial_state]
    by (rule conjunct1)
  moreover have "imports' import_model 1 = [[''a'', ''b'', ''c''], [''a'', ''b'', ''d''], [''a'', ''b'']]"
    by (simp add: import_model_def)
  moreover have "map (\<lambda>e. (start e, end_node e))
     (edges (fst (import_graph import_model [0, 1] ab_index unknown_linker None [] initial_state))) =
     [(0, 1)]"
    by (simp only: import_graph_example) simp
  moreover have "map node_id (nodes (fst (import_graph import_model [0, 1] ab_index unknown_linker
      None [] initial_state))) = [0, 1]"
    by (simp only: import_graph_example) simp
  ultimately show ?thesis by blast
qed

end
